theory Spec2Isabelle
  imports Main "HOL-Library.Word" "HOL-Library.Sublist"
begin

section \<open>Data model of the dynamic_dns module\<close>

text \<open>
  \<^verbatim>\<open>caddy.Duration\<close> and \<^verbatim>\<open>time.Duration\<close> are Go \<^verbatim>\<open>int64\<close> values counting
  nanoseconds: a 64-bit word, compared as a signed number (\<open><s\<close>).
\<close>

type_synonym Duration = "64 word"

definition time_Second :: Duration where
  "time_Second = 1000000000"

definition time_Minute :: Duration where
  "time_Minute = 60 * time_Second"

definition defaultCheckInterval :: Duration where
  "defaultCheckInterval = 30 * time_Minute"

text \<open>
  The routing state that discovery reads, as far as the code looks at it. A raw handler
  (\<^verbatim>\<open>json.RawMessage\<close>) is represented by what its bytes denote: no JSON text at all, or
  one JSON value. A request matcher is an interface value, and the code asks whether its
  dynamic type is the value type \<^verbatim>\<open>caddyhttp.MatchHost\<close> (a list of host names): that is
  \<open>MatchHost\<close>. A host matcher held by pointer (\<^verbatim>\<open>*caddyhttp.MatchHost\<close>, which is what
  Caddy's module loader makes of a configured matcher) is \<open>MatchHostPtr\<close>, and every other
  matcher is \<open>OtherMatcher\<close>; the type assertion fails on both.

  A route holds its handlers twice: \<open>HandlersRaw\<close>, their JSON as configured, and
  \<open>Handlers\<close>, the handlers Caddy loaded from it. Loading empties \<open>HandlersRaw\<close>, so on a
  provisioned HTTP app the raw list is empty and \<open>Handlers\<close> has the handlers. The code
  reads \<open>HandlersRaw\<close> and \<open>MatcherSets\<close> only.
\<close>

datatype json_value =
    JNull
  | JBool bool
  | JNumber int
  | JString string
  | JArray "json_value list"
  | JObject "(string \<times> json_value) list"

datatype RawMessage = InvalidJSON | JSON json_value

datatype json_error = SyntaxError | UnmarshalTypeError

datatype RequestMatcher = MatchHost "string list" | MatchHostPtr "string list" | OtherMatcher

datatype MiddlewareHandler = ReverseProxyHandler | OtherHandler

record Route =
  MatcherSets :: "RequestMatcher list list"
  HandlersRaw :: "RawMessage list"
  Handlers :: "MiddlewareHandler list"

record Server =
  Routes :: "Route list"

text \<open>
  \<^verbatim>\<open>Servers\<close> is a Go map from server name to server. The list gives its entries in the
  order in which the \<^verbatim>\<open>range\<close> statement happens to visit them.
\<close>

record caddyhttp_App =
  Servers :: "(string \<times> Server) list"

datatype caddy_app = HTTPApp caddyhttp_App | OtherApp

datatype Logger = Logger

text \<open>
  The part of \<^verbatim>\<open>caddy.Context\<close> the module uses: \<open>ctx_App c name\<close> is the result of
  \<^verbatim>\<open>ctx.App(name)\<close> (an error message on the left), \<open>ctx_Logger c\<close> the logger it hands out.
\<close>

record Context =
  ctx_App :: "string \<Rightarrow> string + caddy_app"
  ctx_Logger :: Logger

record DNSServer =
  Host :: string
  User :: string
  Password :: string

text \<open>
  The struct \<^verbatim>\<open>App\<close>. A nil map and an empty map are both \<open>Map.empty\<close>: the code reads a
  nil map like an empty one and replaces it by \<^verbatim>\<open>make(...)\<close> right before each write.
  The unexported fields are \<open>None\<close> until \<^verbatim>\<open>Provision\<close> stores them.
\<close>

record App =
  DNSServer :: DNSServer
  Domains :: "string \<rightharpoonup> string list"
  CheckInterval :: Duration
  TTL :: Duration
  AutoCNAME :: bool
  AutoCNAMEZone :: string
  ctx :: "Context option"
  logger :: "Logger option"

text \<open>Every error the module returns, one constructor for each \<^verbatim>\<open>fmt.Errorf\<close> site and
  each dispenser error; \<open>Panic\<close> stands for a run-time panic (no error value is returned).\<close>

datatype error =
    CheckIntervalTooSmall
  | FailedToAddReverseProxyCNAMEs error
  | FailedToDial string
  | FailedToCreateSession string
  | FailedToRunCommand string string
  | DNSRecordUpdateFailed string
  | FailedToGetHTTPApp string
  | FailedToUnmarshalHandler json_error
  | ArgErr
  | UnknownDNSServerProperty string
  | ParseDurationError string
  | Panic string

definition new_App :: App where
  "new_App = \<lparr>DNSServer = \<lparr>Host = [], User = [], Password = []\<rparr>, Domains = Map.empty,
     CheckInterval = 0, TTL = 0, AutoCNAME = False, AutoCNAMEZone = [],
     ctx = None, logger = None\<rparr>"

section \<open>String helpers of the Go library\<close>

text \<open>\<^verbatim>\<open>strings.Contains(s, substr)\<close>: some position of \<open>s\<close> starts a copy of \<open>substr\<close>.\<close>

fun Contains :: "string \<Rightarrow> string \<Rightarrow> bool" where
  "Contains [] substr = (substr = [])"
| "Contains (c # s) substr = (prefix substr (c # s) \<or> Contains s substr)"

text \<open>\<^verbatim>\<open>strings.TrimSuffix(s, suffix)\<close>: \<open>s\<close> without the trailing \<open>suffix\<close> when it ends
  with it, and \<open>s\<close> itself otherwise.\<close>

definition HasSuffix :: "string \<Rightarrow> string \<Rightarrow> bool" where
  "HasSuffix s suf = (length suf \<le> length s \<and> drop (length s - length suf) s = suf)"

definition TrimSuffix :: "string \<Rightarrow> string \<Rightarrow> string" where
  "TrimSuffix s suf = (if HasSuffix s suf then take (length s - length suf) s else s)"

section \<open>Provisioning\<close>

definition Provision :: "Context \<Rightarrow> App \<Rightarrow> (error + unit) \<times> App" where
  "Provision c a =
    (let a1 = a\<lparr>ctx := Some c, logger := Some (ctx_Logger c)\<rparr>;
         a2 = (if CheckInterval a1 = 0
               then a1\<lparr>CheckInterval := defaultCheckInterval\<rparr> else a1)
     in if CheckInterval a2 <s time_Second
        then (Inl CheckIntervalTooSmall, a2)
        else (Inr (), a2))"

section \<open>The remote command executor\<close>

text \<open>
  The SSH library is outside the module. It is a parameter: a record of the calls the
  code makes, each acting on a state \<open>'w\<close> of the outside world (network and remote host,
  including the one connection and session the code holds at a time). An error is a
  message on the left; \<open>CombinedOutput\<close> returns the output together with an optional
  error.
\<close>

datatype AuthMethod = PasswordAuth string

datatype HostKeyCallback = InsecureIgnoreHostKey

record ClientConfig =
  cfg_User :: string
  cfg_Auth :: "AuthMethod list"
  cfg_HostKeyCallback :: HostKeyCallback

record 'w ssh =
  Dial :: "string \<Rightarrow> string \<Rightarrow> ClientConfig \<Rightarrow> 'w \<Rightarrow> (string + unit) \<times> 'w"
  NewSession :: "'w \<Rightarrow> (string + unit) \<times> 'w"
  CombinedOutput :: "string \<Rightarrow> 'w \<Rightarrow> (string \<times> string option) \<times> 'w"
  session_Close :: "'w \<Rightarrow> 'w"
  client_Close :: "'w \<Rightarrow> 'w"

definition cname_cmd :: "string \<Rightarrow> string \<Rightarrow> string" where
  "cname_cmd zone domain =
     ''Add-DnsServerResourceRecordCName -ZoneName '' @ zone @ '' -Name '' @ domain
       @ '' -HostNameAlias '' @ zone"

definition full_cmd :: "string \<Rightarrow> string" where
  \<open>full_cmd cmd = ''powershell -Command "'' @ cmd @ ''"''\<close>

definition updateCNAME :: "'w ssh \<Rightarrow> App \<Rightarrow> string \<Rightarrow> string \<Rightarrow> 'w \<Rightarrow> (error + unit) \<times> 'w" where
  "updateCNAME lib a zone domain w =
    (let config = \<lparr>cfg_User = User (DNSServer a),
                    cfg_Auth = [PasswordAuth (Password (DNSServer a))],
                    cfg_HostKeyCallback = InsecureIgnoreHostKey\<rparr>
     in case Dial lib ''tcp'' (Host (DNSServer a) @ '':22'') config w of
          (Inl err, w1) \<Rightarrow> (Inl (FailedToDial err), w1)
        | (Inr _, w1) \<Rightarrow>
            (case NewSession lib w1 of
               (Inl err, w2) \<Rightarrow> (Inl (FailedToCreateSession err), client_Close lib w2)
             | (Inr _, w2) \<Rightarrow>
                 (let cmd = cname_cmd zone domain;
                      fullCmd = full_cmd cmd;
                      ((output, err), w3) = CombinedOutput lib fullCmd w2;
                      w4 = client_Close lib (session_Close lib w3)
                  in case err of
                       Some e \<Rightarrow> (Inl (FailedToRunCommand e output), w4)
                     | None \<Rightarrow>
                         if Contains output ''Error''
                         then (Inl (DNSRecordUpdateFailed output), w4)
                         else (Inr (), w4))))"

section \<open>The reconciliation pass\<close>

text \<open>
  The four log calls of \<^verbatim>\<open>updateDNS\<close>, in the order of the source: the debug line at the
  start, the error line of a failed update (zone, domain, error), the info line of a
  successful one (zone, domain), the info line at the end. The pass returns what it
  logged, together with the outside world as its updates left it.
\<close>

datatype log_entry =
    BeginningDNSUpdate
  | FailedUpdatingCNAME string string error
  | UpdatedCNAME string string
  | FinishedUpdatingDNS

definition allDomains :: "App \<Rightarrow> (string \<rightharpoonup> string list)" where
  "allDomains a = Domains a"

text \<open>The inner loop, over the names of one zone.\<close>

fun updateDNS_domains ::
  "'w ssh \<Rightarrow> App \<Rightarrow> string \<Rightarrow> string list \<Rightarrow> 'w \<Rightarrow> log_entry list \<times> 'w" where
  "updateDNS_domains lib a zone [] w = ([], w)"
| "updateDNS_domains lib a zone (domain # domains) w =
     (let (err, w1) = updateCNAME lib a zone domain w;
          entry = (case err of
                     Inl e \<Rightarrow> FailedUpdatingCNAME zone domain e
                   | Inr _ \<Rightarrow> UpdatedCNAME zone domain);
          (logs, w2) = updateDNS_domains lib a zone domains w1
      in (entry # logs, w2))"

text \<open>
  The outer loop ranges over a Go map, whose iteration order the language leaves open.
  The order is a parameter: \<open>zones\<close> lists the keys as the run-time visits them, so it
  is a \<open>range_order\<close> of the map.
\<close>

definition range_order :: "('k \<rightharpoonup> 'v) \<Rightarrow> 'k list \<Rightarrow> bool" where
  "range_order m ks = (distinct ks \<and> set ks = dom m)"

definition names_of :: "(string \<rightharpoonup> string list) \<Rightarrow> string \<Rightarrow> string list" where
  "names_of m zone = (case m zone of None \<Rightarrow> [] | Some names \<Rightarrow> names)"

fun updateDNS_zones ::
  "'w ssh \<Rightarrow> App \<Rightarrow> (string \<rightharpoonup> string list) \<Rightarrow> string list \<Rightarrow> 'w \<Rightarrow> log_entry list \<times> 'w" where
  "updateDNS_zones lib a m [] w = ([], w)"
| "updateDNS_zones lib a m (zone # zones) w =
     (let (logs1, w1) = updateDNS_domains lib a zone (names_of m zone) w;
          (logs2, w2) = updateDNS_zones lib a m zones w1
      in (logs1 @ logs2, w2))"

text \<open>
  \<^verbatim>\<open>a.logger\<close> is the logger \<^verbatim>\<open>Provision\<close> stored. On an app that was never provisioned it
  is nil, and the first log call of the pass (line 225) dereferences it: the pass panics
  before any update, with nothing logged and the outside world untouched.
\<close>

definition updateDNS ::
  "'w ssh \<Rightarrow> App \<Rightarrow> string list \<Rightarrow> 'w \<Rightarrow> (error + log_entry list) \<times> 'w" where
  "updateDNS lib a zones w =
     (case logger a of
        None \<Rightarrow> (Inl (Panic ''nil pointer dereference''), w)
      | Some _ \<Rightarrow>
          (let (logs, w') = updateDNS_zones lib a (allDomains a) zones w
           in (Inr (BeginningDNSUpdate # logs @ [FinishedUpdatingDNS]), w')))"

text \<open>The lines a pass logged; a pass that panicked logged none.\<close>

definition logged :: "(error + log_entry list) \<times> 'w \<Rightarrow> log_entry list" where
  "logged r = (case fst r of Inl _ \<Rightarrow> [] | Inr logs \<Rightarrow> logs)"

text \<open>
  What a pass logged about its updates: every call of \<^verbatim>\<open>updateCNAME\<close> leaves exactly one
  entry, the error line or the info line, with its zone and name.
\<close>

fun attempt_of :: "log_entry \<Rightarrow> ((string \<times> string) \<times> (error + unit)) list" where
  "attempt_of (FailedUpdatingCNAME zone domain e) = [((zone, domain), Inl e)]"
| "attempt_of (UpdatedCNAME zone domain) = [((zone, domain), Inr ())]"
| "attempt_of BeginningDNSUpdate = []"
| "attempt_of FinishedUpdatingDNS = []"

definition attempts :: "log_entry list \<Rightarrow> ((string \<times> string) \<times> (error + unit)) list" where
  "attempts logs = concat (map attempt_of logs)"

definition attempted :: "log_entry list \<Rightarrow> (string \<times> string) list" where
  "attempted logs = map fst (attempts logs)"

text \<open>The reconciliation targets: the map flattened in the order of the pass.\<close>

definition targets :: "(string \<rightharpoonup> string list) \<Rightarrow> string list \<Rightarrow> (string \<times> string) list" where
  "targets m zones = concat (map (\<lambda>zone. map (Pair zone) (names_of m zone)) zones)"

text \<open>The (zone, name) pairs present in a map.\<close>

definition pairs :: "(string \<rightharpoonup> string list) \<Rightarrow> (string \<times> string) set" where
  "pairs m = {(zone, name). name \<in> set (names_of m zone)}"

section \<open>Discovery of reverse-proxy hosts\<close>

text \<open>
  \<^verbatim>\<open>json.Unmarshal(rawHandler, &handler)\<close> into a fresh \<^verbatim>\<open>map[string]interface{}\<close>:
  bytes that are no JSON text are a syntax error; \<^verbatim>\<open>null\<close> leaves the map nil and is no
  error; an object fills the map, a later member replacing an earlier one of the same
  name; any other value is a type error.
\<close>

fun json_Unmarshal :: "RawMessage \<Rightarrow> json_error + (string \<rightharpoonup> json_value)" where
  "json_Unmarshal InvalidJSON = Inl SyntaxError"
| "json_Unmarshal (JSON JNull) = Inr Map.empty"
| "json_Unmarshal (JSON (JObject members)) = Inr (map_of (rev members))"
| "json_Unmarshal (JSON v) = Inl UnmarshalTypeError"

text \<open>\<^verbatim>\<open>handlerType, ok := handler["handler"].(string); ok && handlerType == "reverse_proxy"\<close>\<close>

definition is_reverse_proxy :: "(string \<rightharpoonup> json_value) \<Rightarrow> bool" where
  "is_reverse_proxy handler = (handler ''handler'' = Some (JString ''reverse_proxy''))"

text \<open>The body of the innermost loop: one host is appended to the zone's list.\<close>

definition add_host :: "string \<Rightarrow> App \<Rightarrow> App" where
  "add_host host a =
     a\<lparr>Domains := (Domains a)(AutoCNAMEZone a \<mapsto>
          names_of (Domains a) (AutoCNAMEZone a) @ [TrimSuffix host (''.'' @ AutoCNAMEZone a)])\<rparr>"

fun add_hosts :: "string list \<Rightarrow> App \<Rightarrow> App" where
  "add_hosts [] a = a"
| "add_hosts (host # hosts) a = add_hosts hosts (add_host host a)"

fun add_matchers :: "RequestMatcher list \<Rightarrow> App \<Rightarrow> App" where
  "add_matchers [] a = a"
| "add_matchers (matcher # matchers) a =
     add_matchers matchers
       (case matcher of
          MatchHost hostMatcher \<Rightarrow> add_hosts hostMatcher a
        | MatchHostPtr _ \<Rightarrow> a
        | OtherMatcher \<Rightarrow> a)"

fun add_matcherSets :: "RequestMatcher list list \<Rightarrow> App \<Rightarrow> App" where
  "add_matcherSets [] a = a"
| "add_matcherSets (matcherSet # matcherSets) a =
     add_matcherSets matcherSets (add_matchers matcherSet a)"

text \<open>The loop over the raw handlers of one route; a handler that does not decode
  returns the error at once, with the map as it is by then.\<close>

fun scan_handlers :: "Route \<Rightarrow> RawMessage list \<Rightarrow> App \<Rightarrow> (error + unit) \<times> App" where
  "scan_handlers route [] a = (Inr (), a)"
| "scan_handlers route (rawHandler # handlers) a =
     (case json_Unmarshal rawHandler of
        Inl err \<Rightarrow> (Inl (FailedToUnmarshalHandler err), a)
      | Inr handler \<Rightarrow>
          scan_handlers route handlers
            (if is_reverse_proxy handler then add_matcherSets (MatcherSets route) a else a))"

fun scan_routes :: "Route list \<Rightarrow> App \<Rightarrow> (error + unit) \<times> App" where
  "scan_routes [] a = (Inr (), a)"
| "scan_routes (route # routes) a =
     (case scan_handlers route (HandlersRaw route) a of
        (Inl err, a') \<Rightarrow> (Inl err, a')
      | (Inr _, a') \<Rightarrow> scan_routes routes a')"

fun scan_servers :: "(string \<times> Server) list \<Rightarrow> App \<Rightarrow> (error + unit) \<times> App" where
  "scan_servers [] a = (Inr (), a)"
| "scan_servers (server # servers) a =
     (case scan_routes (Routes (snd server)) a of
        (Inl err, a') \<Rightarrow> (Inl err, a')
      | (Inr _, a') \<Rightarrow> scan_servers servers a')"

text \<open>
  \<^verbatim>\<open>a.ctx\<close> is the context \<^verbatim>\<open>Provision\<close> stored. On an app that was never provisioned
  the call \<^verbatim>\<open>a.ctx.App\<close> has only the zero context to ask, which the model takes to be a
  nil dereference; an app of another type than \<^verbatim>\<open>*caddyhttp.App\<close> fails the unchecked
  type assertion. Both are panics, and Caddy reaches neither: it provisions an app before
  it starts it, and the app named \<^verbatim>\<open>http\<close> is the HTTP app.
\<close>

definition addReverseProxyCNAMEs :: "App \<Rightarrow> (error + unit) \<times> App" where
  "addReverseProxyCNAMEs a =
     (case ctx a of
        None \<Rightarrow> (Inl (Panic ''nil pointer dereference''), a)
      | Some c \<Rightarrow>
          (case ctx_App c ''http'' of
             Inl err \<Rightarrow> (Inl (FailedToGetHTTPApp err), a)
           | Inr OtherApp \<Rightarrow> (Inl (Panic ''interface conversion''), a)
           | Inr (HTTPApp httpApp) \<Rightarrow> scan_servers (Servers httpApp) a))"

text \<open>\<^verbatim>\<open>Start\<close>, up to the point where it launches the checker loop.\<close>

definition Start :: "App \<Rightarrow> (error + unit) \<times> App" where
  "Start a =
     (if AutoCNAMEZone a \<noteq> []
      then (case addReverseProxyCNAMEs a of
              (Inl err, a') \<Rightarrow> (Inl (FailedToAddReverseProxyCNAMEs err), a')
            | (Inr _, a') \<Rightarrow> (Inr (), a'))
      else (Inr (), a))"

section \<open>The Caddyfile parser\<close>

text \<open>
  \<^verbatim>\<open>parseApp\<close> reads its input through Caddy's \<^verbatim>\<open>caddyfile.Dispenser\<close>, which is a library
  type and not part of this module. The dispenser is modelled after the library's
  \<^verbatim>\<open>dispenser.go\<close>, as far as \<^verbatim>\<open>parseApp\<close> calls it: a token list, a cursor that starts at
  -1, and the nesting depth. A token carries its file, its line and its text (imports and
  heredocs are left out); two neighbours are on the same line when they come from the same
  file and the first one, line breaks inside it included, ends on the line on which the
  second one starts.
\<close>

record Token =
  File :: string
  Line :: nat
  Text :: string

record Dispenser =
  tokens :: "Token list"
  cursor :: int
  nesting :: int

definition NewDispenser :: "Token list \<Rightarrow> Dispenser" where
  "NewDispenser ts = \<lparr>tokens = ts, cursor = - 1, nesting = 0\<rparr>"

definition NumLineBreaks :: "Token \<Rightarrow> nat" where
  "NumLineBreaks t = count_list (Text t) (CHR 0x0A)"

definition isNextOnNewLine :: "Token \<Rightarrow> Token \<Rightarrow> bool" where
  "isNextOnNewLine t1 t2 = (File t1 \<noteq> File t2 \<or> Line t1 + NumLineBreaks t1 < Line t2)"

definition Val :: "Dispenser \<Rightarrow> string" where
  "Val d = (if cursor d < 0 \<or> cursor d \<ge> int (length (tokens d)) then []
            else Text (tokens d ! nat (cursor d)))"

definition Nesting :: "Dispenser \<Rightarrow> int" where
  "Nesting d = nesting d"

definition Next :: "Dispenser \<Rightarrow> bool \<times> Dispenser" where
  "Next d = (if cursor d < int (length (tokens d)) - 1
             then (True, d\<lparr>cursor := cursor d + 1\<rparr>) else (False, d))"

definition nextOnSameLine :: "Dispenser \<Rightarrow> bool \<times> Dispenser" where
  "nextOnSameLine d =
     (if cursor d < 0 then (True, d\<lparr>cursor := cursor d + 1\<rparr>)
      else if cursor d \<ge> int (length (tokens d)) - 1 then (False, d)
      else if \<not> isNextOnNewLine (tokens d ! nat (cursor d)) (tokens d ! nat (cursor d + 1))
           then (True, d\<lparr>cursor := cursor d + 1\<rparr>)
           else (False, d))"

text \<open>
  \<^verbatim>\<open>NextArg\<close> loads the next token when it is on the same line and is not an opening
  brace; otherwise the cursor stays where it was.
\<close>

definition NextArg :: "Dispenser \<Rightarrow> bool \<times> Dispenser" where
  "NextArg d =
     (case nextOnSameLine d of
        (False, d1) \<Rightarrow> (False, d1)
      | (True, d1) \<Rightarrow>
          if Val d1 = ''{'' then (False, d1\<lparr>cursor := cursor d1 - 1\<rparr>) else (True, d1))"

text \<open>
  \<^verbatim>\<open>NextBlock\<close>, the condition of the block loops. Inside a block it loads the next
  token and adjusts the nesting at a brace that ends its line; the two tests of the source
  (\<^verbatim>\<open>d.Val() == "}" && !d.nextOnSameLine()\<close>, else the same for \<^verbatim>\<open>"{"\<close>) each move the
  cursor when the brace is followed by a token on its line. Outside it expects the opening
  brace on the same line.
\<close>

definition NextBlock :: "int \<Rightarrow> Dispenser \<Rightarrow> bool \<times> Dispenser" where
  "NextBlock initialNestingLevel d =
     (if nesting d > initialNestingLevel then
        (case Next d of
           (False, d1) \<Rightarrow> (False, d1)
         | (True, d1) \<Rightarrow>
             (let closes = (if Val d1 = ''}'' then nextOnSameLine d1 else (True, d1));
                  d4 = (if Val d1 = ''}'' \<and> \<not> fst closes
                        then (snd closes)\<lparr>nesting := nesting (snd closes) - 1\<rparr>
                        else (let d2 = snd closes;
                                  opens = (if Val d2 = ''{'' then nextOnSameLine d2 else (True, d2))
                              in if Val d2 = ''{'' \<and> \<not> fst opens
                                 then (snd opens)\<lparr>nesting := nesting (snd opens) + 1\<rparr>
                                 else snd opens))
              in (nesting d4 > initialNestingLevel, d4)))
      else
        (case nextOnSameLine d of
           (False, d1) \<Rightarrow> (False, d1)
         | (True, d1) \<Rightarrow>
             if Val d1 \<noteq> ''{'' then (False, d1\<lparr>cursor := cursor d1 - 1\<rparr>)
             else (let d2 = snd (Next d1)
                   in if Val d2 = ''}'' then (False, d2)
                      else (True, d2\<lparr>nesting := nesting d2 + 1\<rparr>))))"

text \<open>
  Every loop of the parser is bounded by the number of tokens to the right of the cursor:
  a successful \<^verbatim>\<open>NextArg\<close> or \<^verbatim>\<open>NextBlock\<close> moves the cursor to the right, and nothing
  moves it to the left of where a call found it.
\<close>

definition remaining :: "Dispenser \<Rightarrow> nat" where
  "remaining d = nat (int (length (tokens d)) - cursor d)"

definition advance :: "Dispenser \<Rightarrow> Dispenser" where
  "advance d = d\<lparr>cursor := cursor d + 1\<rparr>"

lemma advance_simps [simp]:
  "tokens (advance d) = tokens d" "nesting (advance d) = nesting d"
  "cursor (advance d) = cursor d + 1"
  by (simp_all add: advance_def)

lemma fst_Next: "fst (Next d) = (cursor d < int (length (tokens d)) - 1)"
  by (simp add: Next_def)

lemma snd_Next: "snd (Next d) = (if fst (Next d) then advance d else d)"
  by (simp add: Next_def advance_def)

lemma fst_nextOnSameLine:
  "fst (nextOnSameLine d) =
     (cursor d < 0 \<or> (cursor d < int (length (tokens d)) - 1 \<and>
        \<not> isNextOnNewLine (tokens d ! nat (cursor d)) (tokens d ! nat (cursor d + 1))))"
  by (auto simp add: nextOnSameLine_def)

lemma snd_nextOnSameLine: "snd (nextOnSameLine d) = (if fst (nextOnSameLine d) then advance d else d)"
  by (simp add: nextOnSameLine_def advance_def)

lemma fst_NextArg: "fst (NextArg d) = (fst (nextOnSameLine d) \<and> Val (advance d) \<noteq> ''{'')"
  by (simp add: NextArg_def prod.case_eq_if bool.case_eq_if snd_nextOnSameLine)

lemma snd_NextArg: "snd (NextArg d) = (if fst (NextArg d) then advance d else d)"
  by (simp add: NextArg_def prod.case_eq_if bool.case_eq_if snd_nextOnSameLine advance_def)

lemma fst_nextOnSameLine_bound: "fst (nextOnSameLine d) \<Longrightarrow> cursor d < int (length (tokens d))"
  by (auto simp: fst_nextOnSameLine)

lemma fst_NextArg_bound: "fst (NextArg d) \<Longrightarrow> cursor d < int (length (tokens d))"
  by (simp add: fst_NextArg fst_nextOnSameLine_bound)

lemma NextBlock_tokens [simp]: "tokens (snd (NextBlock n d)) = tokens d"
  by (simp add: NextBlock_def Let_def prod.case_eq_if bool.case_eq_if snd_Next snd_nextOnSameLine)

lemma NextBlock_cursor:
  "cursor d \<le> cursor (snd (NextBlock n d))"
  by (simp add: NextBlock_def Let_def prod.case_eq_if bool.case_eq_if snd_Next snd_nextOnSameLine
      advance_def)

lemma NextBlock_True:
  "fst (NextBlock n d) \<Longrightarrow> cursor d < cursor (snd (NextBlock n d)) \<and> cursor d < int (length (tokens d))"
  by (auto simp add: NextBlock_def Let_def prod.case_eq_if bool.case_eq_if snd_Next snd_nextOnSameLine
      advance_def fst_Next dest: fst_nextOnSameLine_bound split: if_splits)

lemma NextBlock_remaining:
  "fst (NextBlock n d) \<Longrightarrow> remaining (snd (NextBlock n d)) < remaining d"
  using NextBlock_True [of n d] by (simp add: remaining_def)

lemma NextArg_remaining:
  "(x, y) = NextArg d \<Longrightarrow> x \<Longrightarrow> remaining y < remaining d"
  using fst_NextArg_bound [of d] snd_NextArg [of d]
  by (cases "NextArg d") (auto simp: remaining_def)

lemma NextBlock_remaining':
  "(x, y) = NextBlock n d \<Longrightarrow> x \<Longrightarrow> remaining y < remaining d"
  using NextBlock_remaining [of n d] by (cases "NextBlock n d") auto

text \<open>
  \<^verbatim>\<open>RemainingArgs\<close>: the loop \<^verbatim>\<open>for d.NextArg() { args = append(args, d.Val()) }\<close>.
\<close>

function RemainingArgs :: "Dispenser \<Rightarrow> string list \<times> Dispenser" where
  "RemainingArgs d =
     (case NextArg d of
        (False, d1) \<Rightarrow> ([], d1)
      | (True, d1) \<Rightarrow> (Val d1 # fst (RemainingArgs d1), snd (RemainingArgs d1)))"
  by pat_completeness auto
termination
  by (relation "measure remaining") (auto dest: NextArg_remaining)

declare RemainingArgs.simps [simp del]

lemma RemainingArgs_unfold:
  "RemainingArgs d =
     (if fst (NextArg d)
      then (Val (advance d) # fst (RemainingArgs (advance d)), snd (RemainingArgs (advance d)))
      else ([], d))"
  by (subst RemainingArgs.simps) (simp add: prod.case_eq_if bool.case_eq_if snd_NextArg)

lemma RemainingArgs_preserves:
  "tokens (snd (RemainingArgs d)) = tokens d \<and> nesting (snd (RemainingArgs d)) = nesting d \<and>
   cursor d \<le> cursor (snd (RemainingArgs d))"
proof (induction d rule: RemainingArgs.induct)
  case (1 d)
  show ?case
  proof (cases "fst (NextArg d)")
    case True
    then have n: "(True, advance d) = NextArg d"
      by (metis prod.collapse snd_NextArg)
    from "1.IH"(1) [OF n refl]
    have "tokens (snd (RemainingArgs (advance d))) = tokens (advance d) \<and>
      nesting (snd (RemainingArgs (advance d))) = nesting (advance d) \<and>
      cursor (advance d) \<le> cursor (snd (RemainingArgs (advance d)))" .
    then show ?thesis using True
      by (subst RemainingArgs_unfold, subst (2) RemainingArgs_unfold, subst (3) RemainingArgs_unfold)
        simp
  next
    case False
    then show ?thesis
      by (subst RemainingArgs_unfold, subst (2) RemainingArgs_unfold, subst (3) RemainingArgs_unfold)
        simp
  qed
qed

lemma RemainingArgs_remaining: "remaining (snd (RemainingArgs d)) \<le> remaining d"
  using RemainingArgs_preserves [of d] by (auto simp: remaining_def)

text \<open>
  The loop of the \<^verbatim>\<open>domains\<close> block; \<open>nest\<close> is the nesting level read before the loop.
  A line without names stands for the name \<^verbatim>\<open>"@"\<close>.
\<close>

function parse_domains :: "int \<Rightarrow> Dispenser \<Rightarrow> App \<Rightarrow> error + (App \<times> Dispenser)" where
  "parse_domains nest d app =
     (case NextBlock nest d of
        (False, d1) \<Rightarrow> Inr (app, d1)
      | (True, d1) \<Rightarrow>
          (let zone = Val d1 in
           if zone = [] then Inl ArgErr
           else (let (args, d2) = RemainingArgs d1;
                     names = (if length args = 0 then [''@''] else args)
                 in parse_domains nest d2
                      (app\<lparr>Domains := (Domains app)(zone \<mapsto> names_of (Domains app) zone @ names)\<rparr>))))"
  by pat_completeness auto
termination
proof (relation "measure (\<lambda>(nest, d, app). remaining d)")
  show "wf (measure (\<lambda>(nest, d, app). remaining d))" by simp
next
  fix nest d and app :: App and x y xa xb xc ya xd
  assume "(x, y) = NextBlock nest d" "x = True" "xb = RemainingArgs y" "(xc, ya) = xb"
  then have "remaining y < remaining d" "remaining ya \<le> remaining y"
    using NextBlock_remaining' [of x y nest d] RemainingArgs_remaining [of y]
    by (simp, metis snd_conv)
  then show "((nest, ya, app\<lparr>Domains := (Domains app)(xa \<mapsto> names_of (Domains app) xa @ xd)\<rparr>),
              nest, d, app) \<in> measure (\<lambda>(nest, d, app). remaining d)"
    by simp
qed

text \<open>
  The loop of the \<^verbatim>\<open>dns_server\<close> block.
\<close>

function parse_dns_server :: "int \<Rightarrow> Dispenser \<Rightarrow> App \<Rightarrow> error + (App \<times> Dispenser)" where
  "parse_dns_server nest d app =
     (case NextBlock nest d of
        (False, d1) \<Rightarrow> Inr (app, d1)
      | (True, d1) \<Rightarrow>
          if Val d1 = ''host'' then
            (case NextArg d1 of
               (False, d2) \<Rightarrow> Inl ArgErr
             | (True, d2) \<Rightarrow>
                 parse_dns_server nest d2 (app\<lparr>DNSServer := (DNSServer app)\<lparr>Host := Val d2\<rparr>\<rparr>))
          else if Val d1 = ''user'' then
            (case NextArg d1 of
               (False, d2) \<Rightarrow> Inl ArgErr
             | (True, d2) \<Rightarrow>
                 parse_dns_server nest d2 (app\<lparr>DNSServer := (DNSServer app)\<lparr>User := Val d2\<rparr>\<rparr>))
          else if Val d1 = ''password'' then
            (case NextArg d1 of
               (False, d2) \<Rightarrow> Inl ArgErr
             | (True, d2) \<Rightarrow>
                 parse_dns_server nest d2 (app\<lparr>DNSServer := (DNSServer app)\<lparr>Password := Val d2\<rparr>\<rparr>))
          else Inl (UnknownDNSServerProperty (Val d1)))"
  by pat_completeness auto
termination
proof (relation "measure (\<lambda>(nest, d, app). remaining d)", goal_cases)
  case 1
  show ?case by simp
next
  case (2 nest d app x y xa ya)
  then show ?case
    using NextBlock_remaining' [of x y nest d] NextArg_remaining [of xa ya y] by simp
next
  case (3 nest d app x y xa ya)
  then show ?case
    using NextBlock_remaining' [of x y nest d] NextArg_remaining [of xa ya y] by simp
next
  case (4 nest d app x y xa ya)
  then show ?case
    using NextBlock_remaining' [of x y nest d] NextArg_remaining [of xa ya y] by simp
qed

text \<open>
  The case \<^verbatim>\<open>"auto_cname"\<close> of the directive switch:
  \<^verbatim>\<open>if !d.NextArg() { app.AutoCNAMEZone = d.Val() }\<close>.
\<close>

definition parse_auto_cname :: "Dispenser \<Rightarrow> App \<Rightarrow> App \<times> Dispenser" where
  "parse_auto_cname d app =
     (case NextArg d of
        (False, d1) \<Rightarrow> (app\<lparr>AutoCNAMEZone := Val d1\<rparr>, d1)
      | (True, d1) \<Rightarrow> (app, d1))"

declare parse_domains.simps [simp del] parse_dns_server.simps [simp del]

lemma parse_domains_unfold:
  "parse_domains nest d app =
     (if fst (NextBlock nest d)
      then (if Val (snd (NextBlock nest d)) = [] then Inl ArgErr
            else parse_domains nest (snd (RemainingArgs (snd (NextBlock nest d))))
                   (app\<lparr>Domains := (Domains app)(Val (snd (NextBlock nest d)) \<mapsto>
                      names_of (Domains app) (Val (snd (NextBlock nest d))) @
                        (if length (fst (RemainingArgs (snd (NextBlock nest d)))) = 0 then [''@'']
                         else fst (RemainingArgs (snd (NextBlock nest d)))))\<rparr>))
      else Inr (app, snd (NextBlock nest d)))"
  by (subst parse_domains.simps)
    (simp add: prod.case_eq_if bool.case_eq_if Let_def del: length_0_conv)

lemma parse_dns_server_unfold:
  "parse_dns_server nest d app =
     (if fst (NextBlock nest d)
      then (let d1 = snd (NextBlock nest d) in
            if Val d1 = ''host'' then
              (if fst (NextArg d1)
               then parse_dns_server nest (advance d1)
                      (app\<lparr>DNSServer := (DNSServer app)\<lparr>Host := Val (advance d1)\<rparr>\<rparr>)
               else Inl ArgErr)
            else if Val d1 = ''user'' then
              (if fst (NextArg d1)
               then parse_dns_server nest (advance d1)
                      (app\<lparr>DNSServer := (DNSServer app)\<lparr>User := Val (advance d1)\<rparr>\<rparr>)
               else Inl ArgErr)
            else if Val d1 = ''password'' then
              (if fst (NextArg d1)
               then parse_dns_server nest (advance d1)
                      (app\<lparr>DNSServer := (DNSServer app)\<lparr>Password := Val (advance d1)\<rparr>\<rparr>)
               else Inl ArgErr)
            else Inl (UnknownDNSServerProperty (Val d1)))
      else Inr (app, snd (NextBlock nest d)))"
  by (subst parse_dns_server.simps)
    (simp add: prod.case_eq_if bool.case_eq_if Let_def snd_NextArg)

lemma parse_domains_frame:
  "parse_domains nest d app = Inr (app', d') \<Longrightarrow>
     tokens d' = tokens d \<and> remaining d' \<le> remaining d \<and> AutoCNAMEZone app' = AutoCNAMEZone app"
proof (induction "remaining d" arbitrary: d app rule: less_induct)
  case less
  let ?d1 = "snd (NextBlock nest d)"
  show ?case
  proof (cases "fst (NextBlock nest d)")
    case False
    with less.prems show ?thesis
      using NextBlock_cursor [of d nest]
      by (subst (asm) parse_domains_unfold) (auto simp: remaining_def)
  next
    case True
    let ?d2 = "snd (RemainingArgs ?d1)"
    have r1: "remaining ?d1 < remaining d" using True by (rule NextBlock_remaining)
    have r2: "remaining ?d2 \<le> remaining ?d1" by (rule RemainingArgs_remaining)
    have t2: "tokens ?d2 = tokens d" by (simp add: RemainingArgs_preserves)
    from less.prems True obtain app1 where
      rec: "parse_domains nest ?d2 app1 = Inr (app', d')" and
      z: "AutoCNAMEZone app1 = AutoCNAMEZone app"
      by (subst (asm) parse_domains_unfold) (auto split: if_splits)
    from r1 r2 have "remaining ?d2 < remaining d" by simp
    from less.hyps [OF this rec] t2 r1 r2 z show ?thesis by simp
  qed
qed

lemma parse_dns_server_frame:
  "parse_dns_server nest d app = Inr (app', d') \<Longrightarrow>
     tokens d' = tokens d \<and> remaining d' \<le> remaining d \<and> AutoCNAMEZone app' = AutoCNAMEZone app"
proof (induction "remaining d" arbitrary: d app rule: less_induct)
  case less
  let ?d1 = "snd (NextBlock nest d)"
  show ?case
  proof (cases "fst (NextBlock nest d)")
    case False
    with less.prems show ?thesis
      using NextBlock_cursor [of d nest]
      by (subst (asm) parse_dns_server_unfold) (auto simp: remaining_def)
  next
    case True
    have r1: "remaining ?d1 < remaining d" using True by (rule NextBlock_remaining)
    from less.prems True obtain app1 where
      rec: "parse_dns_server nest (advance ?d1) app1 = Inr (app', d')" and
      z: "AutoCNAMEZone app1 = AutoCNAMEZone app" and a: "fst (NextArg ?d1)"
      by (subst (asm) parse_dns_server_unfold) (auto simp: Let_def split: if_splits)
    have r2: "remaining (advance ?d1) \<le> remaining ?d1" by (simp add: remaining_def)
    from r1 r2 have "remaining (advance ?d1) < remaining d" by simp
    from less.hyps [OF this rec] r1 r2 z show ?thesis by simp
  qed
qed

lemma parse_auto_cname_frame:
  "tokens (snd (parse_auto_cname d app)) = tokens d \<and>
   remaining (snd (parse_auto_cname d app)) \<le> remaining d"
  by (auto simp add: parse_auto_cname_def prod.case_eq_if bool.case_eq_if snd_NextArg
      remaining_def)

text \<open>
  The loop \<^verbatim>\<open>for d.NextBlock(0)\<close> with the directive switch. \<^verbatim>\<open>caddy.ParseDuration\<close> is a
  library function and a parameter here: it returns an error message or a duration.
\<close>

function parse_block ::
  "(string \<Rightarrow> string + Duration) \<Rightarrow> Dispenser \<Rightarrow> App \<Rightarrow> error + (App \<times> Dispenser)" where
  "parse_block ParseDuration d app =
     (case NextBlock 0 d of
        (False, d1) \<Rightarrow> Inr (app, d1)
      | (True, d1) \<Rightarrow>
          if Val d1 = ''domains'' then
            (case parse_domains (Nesting d1) d1 app of
               Inl err \<Rightarrow> Inl err
             | Inr (app', d2) \<Rightarrow> parse_block ParseDuration d2 app')
          else if Val d1 = ''check_interval'' then
            (case NextArg d1 of
               (False, d2) \<Rightarrow> Inl ArgErr
             | (True, d2) \<Rightarrow>
                 (case ParseDuration (Val d2) of
                    Inl err \<Rightarrow> Inl (ParseDurationError err)
                  | Inr dur \<Rightarrow> parse_block ParseDuration d2 (app\<lparr>CheckInterval := dur\<rparr>)))
          else if Val d1 = ''dns_server'' then
            (case parse_dns_server (Nesting d1) d1 app of
               Inl err \<Rightarrow> Inl err
             | Inr (app', d2) \<Rightarrow> parse_block ParseDuration d2 app')
          else if Val d1 = ''ttl'' then
            (case NextArg d1 of
               (False, d2) \<Rightarrow> Inl ArgErr
             | (True, d2) \<Rightarrow>
                 (case ParseDuration (Val d2) of
                    Inl err \<Rightarrow> Inl (ParseDurationError err)
                  | Inr dur \<Rightarrow> parse_block ParseDuration d2 (app\<lparr>TTL := dur\<rparr>)))
          else if Val d1 = ''auto_cname'' then
            (case parse_auto_cname d1 app of
               (app', d2) \<Rightarrow> parse_block ParseDuration d2 app')
          else Inl ArgErr)"
  by pat_completeness auto
termination
proof (relation "measure (\<lambda>(pd, d, app). remaining d)", goal_cases)
  case 1
  show ?case by simp
next
  case (2 pd d app x y x2 xa ya)
  then show ?case
    using NextBlock_remaining' [of x y 0 d] parse_domains_frame [of "Nesting y" y app xa ya]
    by simp
next
  case (3 pd d app x y xa ya x2)
  then show ?case
    using NextBlock_remaining' [of x y 0 d] NextArg_remaining [of xa ya y] by simp
next
  case (4 pd d app x y x2 xa ya)
  then show ?case
    using NextBlock_remaining' [of x y 0 d] parse_dns_server_frame [of "Nesting y" y app xa ya]
    by simp
next
  case (5 pd d app x y xa ya x2)
  then show ?case
    using NextBlock_remaining' [of x y 0 d] NextArg_remaining [of xa ya y] by simp
next
  case (6 pd d app x y xa ya)
  then show ?case
    using NextBlock_remaining' [of x y 0 d] parse_auto_cname_frame [of y app]
    by (cases "parse_auto_cname y app") auto
qed

declare parse_block.simps [simp del]

text \<open>
  \<^verbatim>\<open>parseApp\<close> returns the app it built as JSON (\<^verbatim>\<open>caddyconfig.JSON(app, nil)\<close>) inside an
  \<^verbatim>\<open>httpcaddyfile.App\<close>; the model returns the app itself.
\<close>

definition parseApp :: "(string \<Rightarrow> string + Duration) \<Rightarrow> Dispenser \<Rightarrow> error + App" where
  "parseApp ParseDuration d =
     (case Next d of
        (False, d1) \<Rightarrow> Inl ArgErr
      | (True, d1) \<Rightarrow>
          (case parse_block ParseDuration d1 new_App of
             Inl err \<Rightarrow> Inl err
           | Inr (app, d2) \<Rightarrow> Inr app))"

section \<open>Notions used in the statements\<close>

text \<open>
  The outside world after a pass has worked through a list of targets, and the outcome
  of every target of such a list in turn.
\<close>

fun after_targets :: "'w ssh \<Rightarrow> App \<Rightarrow> (string \<times> string) list \<Rightarrow> 'w \<Rightarrow> 'w" where
  "after_targets lib a [] w = w"
| "after_targets lib a (t # ts) w = after_targets lib a ts (snd (updateCNAME lib a (fst t) (snd t) w))"

fun pass_outcomes :: "'w ssh \<Rightarrow> App \<Rightarrow> (string \<times> string) list \<Rightarrow> 'w \<Rightarrow> ((string \<times> string) \<times> (error + unit)) list" where
  "pass_outcomes lib a [] w = []"
| "pass_outcomes lib a (t # ts) w =
     (t, fst (updateCNAME lib a (fst t) (snd t) w)) # pass_outcomes lib a ts (snd (updateCNAME lib a (fst t) (snd t) w))"

text \<open>
  The log entry of an outcome.
\<close>

definition entry_of :: "(string \<times> string) \<times> (error + unit) \<Rightarrow> log_entry" where
  "entry_of outcome =
     (case snd outcome of
        Inl e \<Rightarrow> FailedUpdatingCNAME (fst (fst outcome)) (snd (fst outcome)) e
      | Inr _ \<Rightarrow> UpdatedCNAME (fst (fst outcome)) (snd (fst outcome)))"

text \<open>
  What discovery does, said without the loops. The scan works through the raw handlers
  of the snapshot in order, each paired with its route: \<open>handler_steps\<close>. It reaches the
  handlers before the first one that does not decode: \<open>scanned\<close>. Its error, if any, is that
  of this first handler: \<open>scan_error\<close>. Every handler reached that decodes to a
  reverse-proxy handler yields the hosts of its route's value-type host matchers:
  \<open>hosts_found\<close>. Each host is stored under its \<open>local_name\<close>, and \<open>append_names\<close> is the
  effect of appending names to the list of the auto-discovery zone.
\<close>

definition local_name :: "string \<Rightarrow> string \<Rightarrow> string" where
  "local_name zone host = TrimSuffix host (''.'' @ zone)"

definition matcher_hosts :: "RequestMatcher \<Rightarrow> string list" where
  "matcher_hosts matcher =
     (case matcher of MatchHost hosts \<Rightarrow> hosts | MatchHostPtr _ \<Rightarrow> [] | OtherMatcher \<Rightarrow> [])"

definition route_hosts :: "Route \<Rightarrow> string list" where
  "route_hosts route =
     concat (map (\<lambda>matcherSet. concat (map matcher_hosts matcherSet)) (MatcherSets route))"

definition route_steps :: "Route list \<Rightarrow> (Route \<times> RawMessage) list" where
  "route_steps routes = concat (map (\<lambda>route. map (Pair route) (HandlersRaw route)) routes)"

definition server_steps :: "(string \<times> Server) list \<Rightarrow> (Route \<times> RawMessage) list" where
  "server_steps servers = concat (map (\<lambda>server. route_steps (Routes (snd server))) servers)"

definition handler_steps :: "caddyhttp_App \<Rightarrow> (Route \<times> RawMessage) list" where
  "handler_steps httpApp = server_steps (Servers httpApp)"

definition decodes :: "RawMessage \<Rightarrow> bool" where
  "decodes raw = (case json_Unmarshal raw of Inl _ \<Rightarrow> False | Inr _ \<Rightarrow> True)"

definition reverse_proxy_raw :: "RawMessage \<Rightarrow> bool" where
  "reverse_proxy_raw raw =
     (case json_Unmarshal raw of Inl _ \<Rightarrow> False | Inr handler \<Rightarrow> is_reverse_proxy handler)"

definition scanned :: "(Route \<times> RawMessage) list \<Rightarrow> (Route \<times> RawMessage) list" where
  "scanned steps = takeWhile (\<lambda>step. decodes (snd step)) steps"

definition scan_error :: "(Route \<times> RawMessage) list \<Rightarrow> error + unit" where
  "scan_error steps =
     (case dropWhile (\<lambda>step. decodes (snd step)) steps of
        [] \<Rightarrow> Inr ()
      | step # _ \<Rightarrow>
          (case json_Unmarshal (snd step) of
             Inl err \<Rightarrow> Inl (FailedToUnmarshalHandler err)
           | Inr _ \<Rightarrow> Inr ()))"

definition hosts_found :: "(Route \<times> RawMessage) list \<Rightarrow> string list" where
  "hosts_found steps =
     concat (map (\<lambda>step. if reverse_proxy_raw (snd step) then route_hosts (fst step) else [])
       steps)"

definition append_names :: "string list \<Rightarrow> App \<Rightarrow> App" where
  "append_names names a =
     (if names = [] then a
      else a\<lparr>Domains := (Domains a)(AutoCNAMEZone a \<mapsto>
             names_of (Domains a) (AutoCNAMEZone a) @ names)\<rparr>)"

text \<open>
  A token \<^verbatim>\<open>auto_cname\<close> at position \<open>i\<close> is followed by an argument when the next token
  is on its line and is not an opening brace.
\<close>

definition has_arg :: "Token list \<Rightarrow> nat \<Rightarrow> bool" where
  "has_arg ts i =
     (Suc i < length ts \<and> \<not> isNextOnNewLine (ts ! i) (ts ! Suc i) \<and> Text (ts ! Suc i) \<noteq> ''{'')"

definition bare_auto_cname :: "Token list \<Rightarrow> bool" where
  "bare_auto_cname ts = (\<exists>i < length ts. Text (ts ! i) = ''auto_cname'' \<and> \<not> has_arg ts i)"

section \<open>Example inputs\<close>

text \<open>
  Remote hosts: one that accepts every command, one whose second command prints an error
  message (its state counts the commands it has run), one that records the commands it is
  sent, and one that refuses the connection.
\<close>

definition ok_ssh :: "unit ssh" where
  "ok_ssh = \<lparr>Dial = (\<lambda>network addr config w. (Inr (), w)),
             NewSession = (\<lambda>w. (Inr (), w)),
             CombinedOutput = (\<lambda>cmd w. (([], None), w)),
             session_Close = (\<lambda>w. w), client_Close = (\<lambda>w. w)\<rparr>"

definition second_fails_ssh :: "nat ssh" where
  "second_fails_ssh = \<lparr>Dial = (\<lambda>network addr config w. (Inr (), w)),
             NewSession = (\<lambda>w. (Inr (), w)),
             CombinedOutput = (\<lambda>cmd w. ((if w = 1 then ''Error: zone not found'' else ''ok'', None), Suc w)),
             session_Close = (\<lambda>w. w), client_Close = (\<lambda>w. w)\<rparr>"

definition recording_ssh :: "string list ssh" where
  "recording_ssh = \<lparr>Dial = (\<lambda>network addr config w. (Inr (), w)),
             NewSession = (\<lambda>w. (Inr (), w)),
             CombinedOutput = (\<lambda>cmd w. (([], None), w @ [cmd])),
             session_Close = (\<lambda>w. w), client_Close = (\<lambda>w. w)\<rparr>"

definition unreachable_ssh :: "unit ssh" where
  "unreachable_ssh = \<lparr>Dial = (\<lambda>network addr config w. (Inl ''connection refused'', w)),
             NewSession = (\<lambda>w. (Inr (), w)),
             CombinedOutput = (\<lambda>cmd w. (([], None), w)),
             session_Close = (\<lambda>w. w), client_Close = (\<lambda>w. w)\<rparr>"

text \<open>
  Domain maps, and the app that provisioning makes of a configuration with such a map.
\<close>

definition example_domains :: "string \<rightharpoonup> string list" where
  "example_domains = [''example.com'' \<mapsto> [''www'', ''api''], ''example.org'' \<mapsto> [''@'']]"

definition three_names :: "string \<rightharpoonup> string list" where
  "three_names = [''example.com'' \<mapsto> [''a'', ''b'', ''c'']]"

definition duplicate_names :: "string \<rightharpoonup> string list" where
  "duplicate_names = [''example.com'' \<mapsto> [''www'', ''www'']]"

definition repeated_names :: "string \<rightharpoonup> string list" where
  "repeated_names = [''example.com'' \<mapsto> [''www'', ''api'', ''www'']]"

definition plain_context :: Context where
  "plain_context = \<lparr>ctx_App = (\<lambda>name. Inl ''unknown app''), ctx_Logger = Logger\<rparr>"

definition pass_app :: "(string \<rightharpoonup> string list) \<Rightarrow> App" where
  "pass_app m = snd (Provision plain_context (new_App\<lparr>Domains := m\<rparr>))"

text \<open>
  Routing snapshots. \<open>provisioned_route\<close> is a route for the given hosts with a
  reverse-proxy handler as the provisioned HTTP app holds it: the raw handlers emptied,
  the handler loaded, the host matcher held by pointer. \<open>raw_route\<close> is a route whose raw
  handlers are still in place and whose host matcher is a value. \<open>snapshot_of\<close> is a
  context whose HTTP app has one server with the given routes, and \<open>discovering_app\<close> the
  app that provisioning makes of a configuration with the given auto-discovery zone.
\<close>

definition provisioned_route :: "string list \<Rightarrow> Route" where
  "provisioned_route hosts =
     \<lparr>MatcherSets = [[MatchHostPtr hosts]], HandlersRaw = [], Handlers = [ReverseProxyHandler]\<rparr>"

definition raw_route :: "string list \<Rightarrow> RawMessage list \<Rightarrow> Route" where
  "raw_route hosts handlers =
     \<lparr>MatcherSets = [[MatchHost hosts]], HandlersRaw = handlers, Handlers = []\<rparr>"

definition snapshot_of :: "Route list \<Rightarrow> Context" where
  "snapshot_of routes =
     \<lparr>ctx_App = (\<lambda>name. if name = ''http''
                          then Inr (HTTPApp \<lparr>Servers = [(''srv0'', \<lparr>Routes = routes\<rparr>)]\<rparr>)
                          else Inl ''unknown app''),
      ctx_Logger = Logger\<rparr>"

definition discovering_app :: "string \<Rightarrow> Route list \<Rightarrow> App" where
  "discovering_app zone routes =
     snd (Provision (snapshot_of routes) (new_App\<lparr>AutoCNAMEZone := zone\<rparr>))"

definition reverse_proxy_handler :: RawMessage where
  "reverse_proxy_handler = JSON (JObject [(''handler'', JString ''reverse_proxy'')])"

definition file_server_handler :: RawMessage where
  "file_server_handler = JSON (JObject [(''handler'', JString ''file_server'')])"

text \<open>
  Two Caddyfiles, as token lists: \<^verbatim>\<open>auto_cname example.com\<close> and a bare \<^verbatim>\<open>auto_cname\<close>
  inside the \<^verbatim>\<open>dynamic_dns\<close> block.
\<close>

definition tok :: "nat \<Rightarrow> string \<Rightarrow> Token" where
  "tok line text = \<lparr>File = ''Caddyfile'', Line = line, Text = text\<rparr>"

definition caddyfile_with_zone :: "Token list" where
  "caddyfile_with_zone =
     [tok 1 ''dynamic_dns'', tok 1 ''{'',
      tok 2 ''auto_cname'', tok 2 ''example.com'',
      tok 3 ''}'']"

definition caddyfile_bare :: "Token list" where
  "caddyfile_bare =
     [tok 1 ''dynamic_dns'', tok 1 ''{'',
      tok 2 ''auto_cname'',
      tok 3 ''}'']"

definition no_durations :: "string \<Rightarrow> string + Duration" where
  "no_durations s = Inl ''invalid duration''"

section \<open>Theorems\<close>

lemma sint_time_Second: "sint time_Second = 1000000000"
  by (simp add: time_Second_def)

lemma sint_defaultCheckInterval: "sint defaultCheckInterval = 1800000000000"
  by (simp add: defaultCheckInterval_def time_Minute_def time_Second_def)

lemma defaultCheckInterval_ok: "\<not> defaultCheckInterval <s time_Second"
  by (simp add: word_sless_alt sint_time_Second sint_defaultCheckInterval)

subsection \<open>Provisioning\<close>

text \<open>
  C1 (as amended). Provisioning fails with the configuration error exactly for a check
  interval that is not 0 and lies below one second (every negative interval and every
  positive one under a second). For every interval of at least one second it succeeds
  and the stored interval is the input. An interval of 0 is the unset value: it is
  replaced by the default, 30 minutes, and provisioning succeeds.
\<close>

theorem Provision_interval:
  "fst (Provision c a) =
     (if CheckInterval a \<noteq> 0 \<and> sint (CheckInterval a) < 1000000000
      then Inl CheckIntervalTooSmall else Inr ()) \<and>
   CheckInterval (snd (Provision c a)) =
     (if CheckInterval a = 0 then defaultCheckInterval else CheckInterval a) \<and>
   sint defaultCheckInterval = 30 * 60 * 1000000000"
  by (simp add: Provision_def Let_def word_sless_alt sint_time_Second
      sint_defaultCheckInterval)

text \<open>
  C1 as stated fails at the interval 0: provisioning does not fail there, it succeeds
  and stores 30 minutes (1800000000000 ns).
\<close>

theorem Provision_zero_counterexample:
  "fst (Provision \<lparr>ctx_App = (\<lambda>n. Inl ''no such app''), ctx_Logger = Logger\<rparr>
          (new_App\<lparr>CheckInterval := 0\<rparr>)) = Inr () \<and>
   sint (CheckInterval (snd (Provision
          \<lparr>ctx_App = (\<lambda>n. Inl ''no such app''), ctx_Logger = Logger\<rparr>
          (new_App\<lparr>CheckInterval := 0\<rparr>)))) = 1800000000000"
  by (simp add: Provision_def Let_def new_App_def word_sless_alt sint_time_Second
      sint_defaultCheckInterval)

subsection \<open>The remote command executor\<close>

text \<open>\<open>Contains\<close> holds exactly when the second string occurs inside the first.\<close>

lemma Contains_iff: "Contains s sub \<longleftrightarrow> (\<exists>p q. s = p @ sub @ q)"
proof (induction s)
  case Nil
  then show ?case by auto
next
  case (Cons c s)
  show ?case
  proof
    assume "Contains (c # s) sub"
    then consider "prefix sub (c # s)" | "Contains s sub" by auto
    then show "\<exists>p q. c # s = p @ sub @ q"
    proof cases
      case 1
      then obtain q where "c # s = sub @ q" by (auto simp: prefix_def)
      then have "c # s = [] @ sub @ q" by simp
      then show ?thesis by blast
    next
      case 2
      with Cons.IH obtain p q where "s = p @ sub @ q" by blast
      then have "c # s = (c # p) @ sub @ q" by simp
      then show ?thesis by blast
    qed
  next
    assume "\<exists>p q. c # s = p @ sub @ q"
    then obtain p q where pq: "c # s = p @ sub @ q" by blast
    show "Contains (c # s) sub"
    proof (cases p)
      case Nil
      with pq have "prefix sub (c # s)" by (simp add: prefix_def)
      then show ?thesis by simp
    next
      case (Cons c' p')
      with pq have "s = p' @ sub @ q" by simp
      with Cons.IH have "Contains s sub" by blast
      then show ?thesis by simp
    qed
  qed
qed

text \<open>
  C4. A failed dial, a failed session and a failed command dispatch each make the update
  return an error. When all three calls succeed, the update returns an error if the
  combined output contains the substring \<^verbatim>\<open>Error\<close>, and success if it does not.
\<close>

theorem updateCNAME_classification:
  fixes lib :: "'w ssh"
  defines "addr \<equiv> \<lambda>a. Host (DNSServer a) @ '':22''"
  defines "config \<equiv> \<lambda>a. \<lparr>cfg_User = User (DNSServer a),
                    cfg_Auth = [PasswordAuth (Password (DNSServer a))],
                    cfg_HostKeyCallback = InsecureIgnoreHostKey\<rparr>"
  shows
  "(\<forall>e w1. Dial lib ''tcp'' (addr a) (config a) w = (Inl e, w1) \<longrightarrow>
       fst (updateCNAME lib a zone domain w) = Inl (FailedToDial e)) \<and>
   (\<forall>e w1 w2. Dial lib ''tcp'' (addr a) (config a) w = (Inr (), w1) \<and>
       NewSession lib w1 = (Inl e, w2) \<longrightarrow>
       fst (updateCNAME lib a zone domain w) = Inl (FailedToCreateSession e)) \<and>
   (\<forall>e out w1 w2 w3. Dial lib ''tcp'' (addr a) (config a) w = (Inr (), w1) \<and>
       NewSession lib w1 = (Inr (), w2) \<and>
       CombinedOutput lib (full_cmd (cname_cmd zone domain)) w2 = ((out, Some e), w3) \<longrightarrow>
       fst (updateCNAME lib a zone domain w) = Inl (FailedToRunCommand e out)) \<and>
   (\<forall>out w1 w2 w3. Dial lib ''tcp'' (addr a) (config a) w = (Inr (), w1) \<and>
       NewSession lib w1 = (Inr (), w2) \<and>
       CombinedOutput lib (full_cmd (cname_cmd zone domain)) w2 = ((out, None), w3) \<longrightarrow>
       fst (updateCNAME lib a zone domain w) =
         (if (\<exists>p q. out = p @ ''Error'' @ q) then Inl (DNSRecordUpdateFailed out) else Inr ()))"
proof -
  have key: "(\<exists>p q. out = p @ ''Error'' @ q) = Contains out ''Error''" for out
    by (rule Contains_iff [symmetric])
  show ?thesis
    unfolding key
    by (simp add: updateCNAME_def addr_def config_def Let_def del: Contains.simps)
qed

text \<open>
  C4 at concrete remote hosts: output with the marker, output without it, and a refused
  connection.
\<close>

theorem updateCNAME_classification_witness:
  "fst (updateCNAME second_fails_ssh new_App ''example.com'' ''api'' 1) =
     Inl (DNSRecordUpdateFailed ''Error: zone not found'') \<and>
   fst (updateCNAME second_fails_ssh new_App ''example.com'' ''api'' 0) = Inr () \<and>
   fst (updateCNAME unreachable_ssh new_App ''example.com'' ''api'' ()) =
     Inl (FailedToDial ''connection refused'')"
proof -
  have c: "Contains ''Error: zone not found'' ''Error''" "\<not> Contains ''ok'' ''Error''"
    by simp_all
  then have e: "\<exists>p q. ''Error: zone not found'' = p @ ''Error'' @ q"
    "\<not> (\<exists>p q. ''ok'' = p @ ''Error'' @ q)"
    unfolding Contains_iff by blast+
  show ?thesis
    using updateCNAME_classification
        [where lib = second_fails_ssh and a = new_App and w = 1
           and zone = "''example.com''" and domain = "''api''"]
      updateCNAME_classification
        [where lib = second_fails_ssh and a = new_App and w = 0
           and zone = "''example.com''" and domain = "''api''"]
      updateCNAME_classification
        [where lib = unreachable_ssh and a = new_App and w = "()"
           and zone = "''example.com''" and domain = "''api''"]
      e
    by (simp add: second_fails_ssh_def unreachable_ssh_def)
qed

text \<open>
  C5. For every zone and name the update sends a single command, the PowerShell call
  of \<^verbatim>\<open>Add-DnsServerResourceRecordCName\<close> with \<^verbatim>\<open>-ZoneName\<close> the zone, \<^verbatim>\<open>-Name\<close> the name and
  \<^verbatim>\<open>-HostNameAlias\<close> the zone again: the update does the same on a library that is handed
  this string whatever it is sent, and the recording host receives exactly this string.
\<close>

theorem updateCNAME_command:
  "updateCNAME lib a zone domain w =
     updateCNAME (lib\<lparr>CombinedOutput := (\<lambda>cmd. CombinedOutput lib
        (''powershell -Command '' @ [CHR 0x22] @
         ''Add-DnsServerResourceRecordCName -ZoneName '' @ zone @ '' -Name '' @ domain @
         '' -HostNameAlias '' @ zone @ [CHR 0x22]))\<rparr>) a zone domain w \<and>
   snd (updateCNAME recording_ssh a zone domain []) =
     [''powershell -Command '' @ [CHR 0x22] @
      ''Add-DnsServerResourceRecordCName -ZoneName '' @ zone @ '' -Name '' @ domain @
      '' -HostNameAlias '' @ zone @ [CHR 0x22]]"
  by (simp add: updateCNAME_def Let_def full_cmd_def cname_cmd_def recording_ssh_def
      split: prod.splits sum.splits option.splits)

subsection \<open>The reconciliation pass\<close>

text \<open>
  The pass, said without its loops: it works through the targets of the map one after
  the other, and logs one line per target.
\<close>

lemma attempts_append: "attempts (xs @ ys) = attempts xs @ attempts ys"
  by (simp add: attempts_def)

lemma attempt_of_entry_of: "attempt_of (entry_of outcome) = [outcome]"
  by (cases outcome) (auto simp: entry_of_def split: sum.splits)

lemma attempts_entries: "attempts (map entry_of outcomes) = outcomes"
  by (induction outcomes) (simp_all add: attempts_def attempt_of_entry_of)

lemma updateDNS_domains_eq:
  "updateDNS_domains lib a zone ds w =
     (map entry_of (pass_outcomes lib a (map (Pair zone) ds) w),
      after_targets lib a (map (Pair zone) ds) w)"
  by (induction ds arbitrary: w) (auto simp: split_beta Let_def entry_of_def split: sum.splits)

lemma pass_outcomes_append:
  "pass_outcomes lib a (ts @ us) w =
     pass_outcomes lib a ts w @ pass_outcomes lib a us (after_targets lib a ts w)"
  by (induction ts arbitrary: w) auto

lemma after_targets_append:
  "after_targets lib a (ts @ us) w = after_targets lib a us (after_targets lib a ts w)"
  by (induction ts arbitrary: w) auto

lemma targets_Cons:
  "targets m (z # zs) = map (Pair z) (names_of m z) @ targets m zs"
  by (simp add: targets_def)

lemma updateDNS_zones_eq:
  "updateDNS_zones lib a m zs w =
     (map entry_of (pass_outcomes lib a (targets m zs) w), after_targets lib a (targets m zs) w)"
proof (induction zs arbitrary: w)
  case Nil
  show ?case by (simp add: targets_def)
next
  case (Cons z zs)
  show ?case
    by (simp add: Cons.IH updateDNS_domains_eq targets_Cons pass_outcomes_append
        after_targets_append)
qed

lemma updateDNS_eq:
  "logger a = Some l \<Longrightarrow>
   updateDNS lib a zs w =
     (Inr (BeginningDNSUpdate # map entry_of (pass_outcomes lib a (targets (Domains a) zs) w)
            @ [FinishedUpdatingDNS]),
      after_targets lib a (targets (Domains a) zs) w)"
  by (simp add: updateDNS_def allDomains_def updateDNS_zones_eq)

lemma attempts_updateDNS:
  "logger a = Some l \<Longrightarrow>
   attempts (logged (updateDNS lib a zs w)) = pass_outcomes lib a (targets (Domains a) zs) w"
proof -
  assume "logger a = Some l"
  then have "logged (updateDNS lib a zs w) =
      [BeginningDNSUpdate] @ map entry_of (pass_outcomes lib a (targets (Domains a) zs) w)
        @ [FinishedUpdatingDNS]"
    by (simp add: updateDNS_eq logged_def)
  then show ?thesis
    by (simp only: attempts_append attempts_entries) (simp add: attempts_def)
qed

lemma map_fst_pass_outcomes: "map fst (pass_outcomes lib a ts w) = ts"
  by (induction ts arbitrary: w) auto

lemma nth_pass_outcomes:
  "i < length ts \<Longrightarrow> pass_outcomes lib a ts w ! i =
     (ts ! i, fst (updateCNAME lib a (fst (ts ! i)) (snd (ts ! i)) (after_targets lib a (take i ts) w)))"
proof (induction ts arbitrary: w i)
  case Nil
  then show ?case by simp
next
  case (Cons t ts)
  then show ?case by (cases i) auto
qed

lemma attempted_updateDNS:
  "logger a = Some l \<Longrightarrow> attempted (logged (updateDNS lib a zs w)) = targets (Domains a) zs"
  by (simp add: attempted_def attempts_updateDNS map_fst_pass_outcomes)

lemma recording_step:
  "updateCNAME recording_ssh a zone domain w = (Inr (), w @ [full_cmd (cname_cmd zone domain)])"
  by (simp add: updateCNAME_def recording_ssh_def Let_def)

lemma recording_after_targets:
  "after_targets recording_ssh a ts w =
     w @ map (\<lambda>t. full_cmd (cname_cmd (fst t) (snd t))) ts"
  by (induction ts arbitrary: w) (simp_all add: recording_step)

lemma count_list_map_Pair:
  "count_list (map (Pair z) ns) (z', n) = (if z = z' then count_list ns n else 0)"
  by (induction ns) auto

lemma count_targets_notin:
  "zone \<notin> set zs \<Longrightarrow> count_list (targets m zs) (zone, name) = 0"
  by (induction zs) (auto simp: targets_def count_list_map_Pair)

lemma count_targets_distinct:
  "distinct zs \<Longrightarrow> zone \<in> set zs \<Longrightarrow>
     count_list (targets m zs) (zone, name) = count_list (names_of m zone) name"
proof (induction zs)
  case Nil
  then show ?case by simp
next
  case (Cons z zs)
  show ?case
  proof (cases "z = zone")
    case True
    with Cons.prems have "zone \<notin> set zs" by simp
    then have "count_list (targets m zs) (zone, name) = 0" by (rule count_targets_notin)
    then show ?thesis using True by (simp add: targets_Cons count_list_map_Pair)
  next
    case False
    with Cons show ?thesis by (simp add: targets_Cons count_list_map_Pair)
  qed
qed

lemma count_targets:
  assumes "range_order m zs"
  shows "count_list (targets m zs) (zone, name) = count_list (names_of m zone) name"
proof (cases "zone \<in> set zs")
  case True
  with assms show ?thesis by (simp add: range_order_def count_targets_distinct)
next
  case False
  with assms have "m zone = None" by (auto simp: range_order_def)
  then show ?thesis using False by (simp add: count_targets_notin names_of_def)
qed

lemma set_targets_subset:
  "set (targets m zs) = {(zone, name). zone \<in> set zs \<and> name \<in> set (names_of m zone)}"
  by (auto simp: targets_def)

lemma set_targets: "range_order m zs \<Longrightarrow> set (targets m zs) = pairs m"
  by (auto simp: set_targets_subset pairs_def range_order_def names_of_def split: option.splits)

lemma count_list_distinct:
  "distinct xs \<Longrightarrow> count_list xs x = (if x \<in> set xs then 1 else 0)"
  by (induction xs) auto

lemma pass_app_simps:
  "logger (pass_app m) = Some Logger" "Domains (pass_app m) = m"
  by (simp_all add: pass_app_def Provision_def Let_def plain_context_def new_App_def)

text \<open>
  C2 (as amended). Take an app whose logger is set, as every provisioned app has it, and
  any order in which the run-time may range over the map. The updates the pass logs are,
  in order, the entries of the flattened map. The outside world after the pass is the
  world after the updates of exactly these entries, in this order; a host that records
  what it is sent has received the CNAME command of each entry, once per entry, and
  nothing else. So a pair (zone, name) is attempted once for every occurrence of the name
  in the list of the zone: the pairs attempted are the pairs of the map, a pair that is
  not in the map is never attempted, and a pair of the map is attempted exactly once
  when the list of its zone holds no name twice.
\<close>

theorem updateDNS_attempts_per_occurrence:
  assumes "logger a = Some l" and "range_order (Domains a) zones"
  shows "attempted (logged (updateDNS lib a zones w)) = targets (Domains a) zones \<and>
         snd (updateDNS lib a zones w) = after_targets lib a (targets (Domains a) zones) w \<and>
         snd (updateDNS recording_ssh a zones []) =
           map (\<lambda>t. full_cmd (cname_cmd (fst t) (snd t))) (targets (Domains a) zones) \<and>
         count_list (targets (Domains a) zones) (zone, name) =
           count_list (names_of (Domains a) zone) name \<and>
         set (targets (Domains a) zones) = pairs (Domains a) \<and>
         (distinct (names_of (Domains a) zone) \<longrightarrow>
            count_list (targets (Domains a) zones) (zone, name) =
              (if (zone, name) \<in> pairs (Domains a) then 1 else 0))"
proof -
  have att: "attempted (logged (updateDNS lib a zones w)) = targets (Domains a) zones"
    using assms(1) by (rule attempted_updateDNS)
  have world: "snd (updateDNS lib' a zones w') = after_targets lib' a (targets (Domains a) zones) w'"
    for lib' :: "'b ssh" and w'
    using assms(1) by (simp add: updateDNS_eq)
  have c: "count_list (targets (Domains a) zones) (zone, name) =
      count_list (names_of (Domains a) zone) name"
    using assms(2) by (rule count_targets)
  have s: "set (targets (Domains a) zones) = pairs (Domains a)"
    using assms(2) by (rule set_targets)
  have d: "count_list (names_of (Domains a) zone) name =
      (if (zone, name) \<in> pairs (Domains a) then 1 else 0)"
    if "distinct (names_of (Domains a) zone)"
    using that by (simp add: pairs_def count_list_distinct)
  show ?thesis
    using att world [of lib w] world [of recording_ssh "[]"] c s d
    by (simp add: recording_after_targets)
qed

lemma targets_example:
  "targets example_domains [''example.org'', ''example.com''] =
     [(''example.org'', ''@''), (''example.com'', ''www''), (''example.com'', ''api'')]"
  by (simp add: targets_def example_domains_def names_of_def)

text \<open>
  C2 at a provisioned app with a map of two zones: three updates are attempted, the
  recording host receives their three commands, a present pair is attempted once and an
  absent one never.
\<close>

theorem updateDNS_attempts_per_occurrence_witness:
  "attempted (logged (updateDNS ok_ssh (pass_app example_domains)
       [''example.org'', ''example.com''] ())) =
     [(''example.org'', ''@''), (''example.com'', ''www''), (''example.com'', ''api'')] \<and>
   snd (updateDNS recording_ssh (pass_app example_domains)
       [''example.org'', ''example.com''] []) =
     [full_cmd (cname_cmd ''example.org'' ''@''), full_cmd (cname_cmd ''example.com'' ''www''),
      full_cmd (cname_cmd ''example.com'' ''api'')] \<and>
   count_list (targets example_domains [''example.org'', ''example.com''])
     (''example.com'', ''api'') = 1 \<and>
   count_list (targets example_domains [''example.org'', ''example.com''])
     (''example.com'', ''mail'') = 0"
proof -
  have l: "logger (pass_app example_domains) = Some Logger" by (rule pass_app_simps)
  have h: "range_order (Domains (pass_app example_domains)) [''example.org'', ''example.com'']"
    by (auto simp: range_order_def example_domains_def pass_app_simps)
  have n: "names_of example_domains ''example.com'' = [''www'', ''api'']"
    by (simp add: names_of_def example_domains_def)
  show ?thesis
    using updateDNS_attempts_per_occurrence [OF l h, of ok_ssh "()" "''example.com''" "''api''"]
      updateDNS_attempts_per_occurrence [OF l h, of ok_ssh "()" "''example.com''" "''mail''"]
    by (simp add: n pass_app_simps targets_example)
qed

lemma targets_duplicate:
  "targets duplicate_names [''example.com''] = [(''example.com'', ''www''), (''example.com'', ''www'')]"
  by (simp add: targets_def duplicate_names_def names_of_def)

text \<open>
  C2 as stated fails where a zone lists a name twice: the pair is present in the map, the
  pass of a provisioned app attempts it twice, and the recording host receives its
  command twice.
\<close>

theorem updateDNS_duplicate_counterexample:
  "range_order duplicate_names [''example.com''] \<and>
   (''example.com'', ''www'') \<in> pairs duplicate_names \<and>
   count_list (attempted (logged (updateDNS ok_ssh (pass_app duplicate_names)
       [''example.com''] ()))) (''example.com'', ''www'') = 2 \<and>
   snd (updateDNS recording_ssh (pass_app duplicate_names) [''example.com''] []) =
     [full_cmd (cname_cmd ''example.com'' ''www''), full_cmd (cname_cmd ''example.com'' ''www'')]"
proof -
  have l: "logger (pass_app duplicate_names) = Some Logger" by (rule pass_app_simps)
  have 1: "range_order duplicate_names [''example.com'']"
    by (simp add: range_order_def duplicate_names_def)
  have 2: "(''example.com'', ''www'') \<in> pairs duplicate_names"
    by (simp add: pairs_def duplicate_names_def names_of_def)
  have 3: "attempted (logged (updateDNS ok_ssh (pass_app duplicate_names)
       [''example.com''] ())) = [(''example.com'', ''www''), (''example.com'', ''www'')]"
    by (simp add: attempted_updateDNS [OF l] pass_app_simps targets_duplicate)
  have 4: "snd (updateDNS recording_ssh (pass_app duplicate_names) [''example.com''] []) =
     [full_cmd (cname_cmd ''example.com'' ''www''), full_cmd (cname_cmd ''example.com'' ''www'')]"
  proof -
    have "snd (updateDNS recording_ssh (pass_app duplicate_names) [''example.com''] []) =
        map (\<lambda>t. full_cmd (cname_cmd (fst t) (snd t)))
          (targets (Domains (pass_app duplicate_names)) [''example.com''])"
      by (simp add: updateDNS_eq [OF l] recording_after_targets)
    then show ?thesis by (simp add: pass_app_simps targets_duplicate)
  qed
  from 1 2 show ?thesis unfolding 3 4 by simp
qed

text \<open>
  C3 (as amended). Take an app whose logger is set and any behaviour of the remote side.
  The pass returns normally, and what it logs is the opening line, one line per entry of
  the flattened map in order, and the closing line: no failure ends the pass early. The
  line of the entry at position \<open>i\<close> reports the result of that entry's own update, run
  on the outside world as the updates of the entries before it left it; the pass hands
  nothing else from one update to the next. The world after the pass is the world after
  all these updates. A pair (zone, name) is attempted once for every occurrence of the
  name in the list of the zone, hence exactly once when that list names it once.
\<close>

theorem updateDNS_failure_isolation:
  assumes "logger a = Some l"
  shows "updateDNS lib a zones w =
           (Inr (BeginningDNSUpdate #
                 map entry_of (pass_outcomes lib a (targets (Domains a) zones) w) @
                 [FinishedUpdatingDNS]),
            after_targets lib a (targets (Domains a) zones) w) \<and>
         map fst (pass_outcomes lib a (targets (Domains a) zones) w) = targets (Domains a) zones \<and>
         (\<forall>i < length (targets (Domains a) zones).
            snd (pass_outcomes lib a (targets (Domains a) zones) w ! i) =
              fst (updateCNAME lib a (fst (targets (Domains a) zones ! i))
                    (snd (targets (Domains a) zones ! i))
                    (after_targets lib a (take i (targets (Domains a) zones)) w))) \<and>
         (range_order (Domains a) zones \<longrightarrow>
            count_list (attempted (logged (updateDNS lib a zones w))) (zone, name) =
              count_list (names_of (Domains a) zone) name)"
proof -
  have 1: "updateDNS lib a zones w =
           (Inr (BeginningDNSUpdate #
                 map entry_of (pass_outcomes lib a (targets (Domains a) zones) w) @
                 [FinishedUpdatingDNS]),
            after_targets lib a (targets (Domains a) zones) w)"
    using assms by (rule updateDNS_eq)
  have 2: "map fst (pass_outcomes lib a (targets (Domains a) zones) w) = targets (Domains a) zones"
    by (rule map_fst_pass_outcomes)
  have 3: "\<forall>i < length (targets (Domains a) zones).
            snd (pass_outcomes lib a (targets (Domains a) zones) w ! i) =
              fst (updateCNAME lib a (fst (targets (Domains a) zones ! i))
                    (snd (targets (Domains a) zones ! i))
                    (after_targets lib a (take i (targets (Domains a) zones)) w))"
    by (simp add: nth_pass_outcomes)
  have 4: "range_order (Domains a) zones \<longrightarrow>
            count_list (attempted (logged (updateDNS lib a zones w))) (zone, name) =
              count_list (names_of (Domains a) zone) name"
    by (simp only: attempted_updateDNS [OF assms]) (simp add: count_targets)
  from 1 2 3 4 show ?thesis by blast
qed

lemma targets_three: "targets three_names [''example.com''] =
    [(''example.com'', ''a''), (''example.com'', ''b''), (''example.com'', ''c'')]"
  by (simp add: targets_def three_names_def names_of_def)

lemma targets_repeated: "targets repeated_names [''example.com''] =
    [(''example.com'', ''www''), (''example.com'', ''api''), (''example.com'', ''www'')]"
  by (simp add: targets_def repeated_names_def names_of_def)

lemma second_fails_step:
  "updateCNAME second_fails_ssh a zone domain w =
     (if w = 1 then Inl (DNSRecordUpdateFailed ''Error: zone not found'') else Inr (), Suc w)"
  by (simp add: updateCNAME_def second_fails_ssh_def Let_def)

text \<open>
  C3 at a provisioned app with three targets, on a remote host whose second command
  prints an error: the log holds success for the first, the failure for the second and
  success for the third, the host has run three commands, and the first target was
  attempted once.
\<close>

theorem updateDNS_failure_isolation_witness:
  "updateDNS second_fails_ssh (pass_app three_names) [''example.com''] 0 =
     (Inr [BeginningDNSUpdate,
           UpdatedCNAME ''example.com'' ''a'',
           FailedUpdatingCNAME ''example.com'' ''b''
             (DNSRecordUpdateFailed ''Error: zone not found''),
           UpdatedCNAME ''example.com'' ''c'',
           FinishedUpdatingDNS], 3) \<and>
   count_list (attempted (logged (updateDNS second_fails_ssh (pass_app three_names)
       [''example.com''] 0))) (''example.com'', ''a'') = 1"
proof -
  have l: "logger (pass_app three_names) = Some Logger" by (rule pass_app_simps)
  have r: "range_order (Domains (pass_app three_names)) [''example.com'']"
    by (simp add: range_order_def pass_app_simps three_names_def)
  have n: "names_of three_names ''example.com'' = [''a'', ''b'', ''c'']"
    by (simp add: names_of_def three_names_def)
  have o: "pass_outcomes second_fails_ssh (pass_app three_names)
      [(''example.com'', ''a''), (''example.com'', ''b''), (''example.com'', ''c'')] 0 =
      [((''example.com'', ''a''), Inr ()),
       ((''example.com'', ''b''), Inl (DNSRecordUpdateFailed ''Error: zone not found'')),
       ((''example.com'', ''c''), Inr ())]"
    by (simp add: second_fails_step)
  have w: "after_targets second_fails_ssh (pass_app three_names)
      [(''example.com'', ''a''), (''example.com'', ''b''), (''example.com'', ''c'')] 0 = 3"
    by (simp add: second_fails_step)
  note th = updateDNS_failure_isolation [OF l, of second_fails_ssh "[''example.com'']" 0
        "''example.com''" "''a''", unfolded pass_app_simps targets_three o w]
  from th have 1: "updateDNS second_fails_ssh (pass_app three_names) [''example.com''] 0 =
     (Inr (BeginningDNSUpdate # map entry_of
        [((''example.com'', ''a''), Inr ()),
         ((''example.com'', ''b''), Inl (DNSRecordUpdateFailed ''Error: zone not found'')),
         ((''example.com'', ''c''), Inr ())] @ [FinishedUpdatingDNS]), 3)"
    by blast
  from r have r': "range_order three_names [''example.com'']"
    by (simp only: pass_app_simps)
  from th have "range_order three_names [''example.com''] \<longrightarrow>
      count_list (attempted (logged (updateDNS second_fails_ssh (pass_app three_names)
       [''example.com''] 0))) (''example.com'', ''a'') =
      count_list (names_of three_names ''example.com'') ''a''"
    by blast
  with r' have 2: "count_list (attempted (logged (updateDNS second_fails_ssh (pass_app three_names)
       [''example.com''] 0))) (''example.com'', ''a'') =
      count_list (names_of three_names ''example.com'') ''a''"
    by blast
  from 1 have log: "updateDNS second_fails_ssh (pass_app three_names) [''example.com''] 0 =
     (Inr [BeginningDNSUpdate,
           UpdatedCNAME ''example.com'' ''a'',
           FailedUpdatingCNAME ''example.com'' ''b''
             (DNSRecordUpdateFailed ''Error: zone not found''),
           UpdatedCNAME ''example.com'' ''c'',
           FinishedUpdatingDNS], 3)"
    by (simp add: entry_of_def)
  from 2 have cnt: "count_list (attempted (logged (updateDNS second_fails_ssh (pass_app three_names)
       [''example.com''] 0))) (''example.com'', ''a'') = 1"
    by (simp add: n)
  from log cnt show ?thesis by (rule conjI)
qed

text \<open>
  C3 as stated fails where a zone lists a name twice: on the same remote host, with the
  list \<^verbatim>\<open>[www, api, www]\<close>, the failure of the second update does not end the pass, but the
  target \<^verbatim>\<open>www\<close> is attempted twice, not exactly once.
\<close>

theorem updateDNS_repeated_counterexample:
  "updateDNS second_fails_ssh (pass_app repeated_names) [''example.com''] 0 =
     (Inr [BeginningDNSUpdate,
           UpdatedCNAME ''example.com'' ''www'',
           FailedUpdatingCNAME ''example.com'' ''api''
             (DNSRecordUpdateFailed ''Error: zone not found''),
           UpdatedCNAME ''example.com'' ''www'',
           FinishedUpdatingDNS], 3) \<and>
   count_list (attempted (logged (updateDNS second_fails_ssh (pass_app repeated_names)
       [''example.com''] 0))) (''example.com'', ''www'') = 2"
proof -
  have l: "logger (pass_app repeated_names) = Some Logger" by (rule pass_app_simps)
  have 1: "updateDNS second_fails_ssh (pass_app repeated_names) [''example.com''] 0 =
     (Inr [BeginningDNSUpdate,
           UpdatedCNAME ''example.com'' ''www'',
           FailedUpdatingCNAME ''example.com'' ''api''
             (DNSRecordUpdateFailed ''Error: zone not found''),
           UpdatedCNAME ''example.com'' ''www'',
           FinishedUpdatingDNS], 3)"
    by (simp add: updateDNS_eq [OF l] pass_app_simps targets_repeated second_fails_step
        entry_of_def)
  have 2: "attempted (logged (updateDNS second_fails_ssh (pass_app repeated_names)
       [''example.com''] 0)) =
       [(''example.com'', ''www''), (''example.com'', ''api''), (''example.com'', ''www'')]"
    by (simp add: attempted_updateDNS [OF l] pass_app_simps targets_repeated)
  have 3: "count_list (attempted (logged (updateDNS second_fails_ssh (pass_app repeated_names)
       [''example.com''] 0))) (''example.com'', ''www'') = 2"
    unfolding 2 by simp
  from 1 3 show ?thesis by (rule conjI)
qed

subsection \<open>Discovery\<close>

text \<open>
  Discovery, said without its loops: on a context that hands out an HTTP app, the result
  is the error of the scan and the app with the names of the hosts found appended.
\<close>

lemma append_names_Nil [simp]: "append_names [] a = a"
  by (simp add: append_names_def)

lemma append_names_zone [simp]: "AutoCNAMEZone (append_names names a) = AutoCNAMEZone a"
  by (simp add: append_names_def)

lemma append_names_ctx [simp]: "ctx (append_names names a) = ctx a"
  by (simp add: append_names_def)

lemma append_names_append:
  "append_names ns (append_names ms a) = append_names (ms @ ns) a"
  by (simp add: append_names_def names_of_def)

lemma add_host_eq: "add_host host a = append_names [local_name (AutoCNAMEZone a) host] a"
  by (simp add: add_host_def append_names_def local_name_def)

lemma add_hosts_eq: "add_hosts hosts a = append_names (map (local_name (AutoCNAMEZone a)) hosts) a"
  by (induction hosts arbitrary: a) (simp_all add: add_host_eq append_names_append)

lemma add_matchers_eq:
  "add_matchers ms a = append_names (map (local_name (AutoCNAMEZone a)) (concat (map matcher_hosts ms))) a"
  by (induction ms arbitrary: a)
    (simp_all add: add_hosts_eq append_names_append matcher_hosts_def split: RequestMatcher.splits)

lemma add_matcherSets_eq:
  "add_matcherSets mss a =
     append_names (map (local_name (AutoCNAMEZone a))
       (concat (map (\<lambda>matcherSet. concat (map matcher_hosts matcherSet)) mss))) a"
  by (induction mss arbitrary: a) (simp_all add: add_matchers_eq append_names_append)

lemma scan_error_Nil [simp]: "scan_error [] = Inr ()"
  by (simp add: scan_error_def)

lemma scanned_Nil [simp]: "scanned [] = []"
  by (simp add: scanned_def)

lemma hosts_found_Nil [simp]: "hosts_found [] = []"
  by (simp add: hosts_found_def)

lemma hosts_found_append: "hosts_found (xs @ ys) = hosts_found xs @ hosts_found ys"
  by (simp add: hosts_found_def)

lemma scan_error_all:
  "(\<forall>step \<in> set steps. decodes (snd step)) \<Longrightarrow> scan_error steps = Inr () \<and> scanned steps = steps"
proof -
  assume a: "\<forall>step \<in> set steps. decodes (snd step)"
  then have d: "dropWhile (\<lambda>step. decodes (snd step)) steps = []"
    by (simp add: dropWhile_eq_Nil_conv)
  from a have t: "takeWhile (\<lambda>step. decodes (snd step)) steps = steps"
    by (simp add: takeWhile_eq_all_conv)
  show ?thesis unfolding scan_error_def scanned_def d t by simp
qed

lemma scan_error_Inr: "scan_error steps = Inr () \<Longrightarrow> \<forall>step \<in> set steps. decodes (snd step)"
proof (induction steps)
  case Nil
  then show ?case by simp
next
  case (Cons x xs)
  show ?case
  proof (cases "decodes (snd x)")
    case True
    with Cons.prems have "scan_error xs = Inr ()" by (simp add: scan_error_def)
    with Cons.IH True show ?thesis by simp
  next
    case False
    then obtain err where "json_Unmarshal (snd x) = Inl err"
      by (auto simp: decodes_def split: sum.splits)
    with False Cons.prems show ?thesis by (simp add: scan_error_def)
  qed
qed

lemma scan_error_forms:
  "scan_error steps = Inr () \<or> (\<exists>e. scan_error steps = Inl (FailedToUnmarshalHandler e))"
proof (cases "dropWhile (\<lambda>step. decodes (snd step)) steps")
  case Nil
  show ?thesis unfolding scan_error_def Nil by simp
next
  case (Cons x xs)
  show ?thesis unfolding scan_error_def Cons by (cases "json_Unmarshal (snd x)") simp_all
qed

lemma scan_append_ok:
  "scan_error xs = Inr () \<Longrightarrow>
     scan_error (xs @ ys) = scan_error ys \<and> scanned (xs @ ys) = xs @ scanned ys"
proof -
  assume "scan_error xs = Inr ()"
  then have all: "\<And>x. x \<in> set xs \<Longrightarrow> decodes (snd x)"
    using scan_error_Inr [of xs] by blast
  have d: "dropWhile (\<lambda>step. decodes (snd step)) (xs @ ys) =
      dropWhile (\<lambda>step. decodes (snd step)) ys"
    by (rule dropWhile_append2) (rule all)
  have t: "takeWhile (\<lambda>step. decodes (snd step)) (xs @ ys) =
      xs @ takeWhile (\<lambda>step. decodes (snd step)) ys"
    by (rule takeWhile_append2) (rule all)
  show ?thesis unfolding scan_error_def scanned_def d t by simp
qed

lemma scan_append_fail:
  "scan_error xs = Inl e \<Longrightarrow>
     scan_error (xs @ ys) = Inl e \<and> scanned (xs @ ys) = scanned xs"
proof -
  assume a: "scan_error xs = Inl e"
  then have "\<not> (\<forall>step \<in> set xs. decodes (snd step))"
    using scan_error_all [of xs] by auto
  then obtain x where x: "x \<in> set xs" "\<not> decodes (snd x)" by blast
  then have d: "dropWhile (\<lambda>step. decodes (snd step)) (xs @ ys) =
      dropWhile (\<lambda>step. decodes (snd step)) xs @ ys"
    and t: "takeWhile (\<lambda>step. decodes (snd step)) (xs @ ys) =
      takeWhile (\<lambda>step. decodes (snd step)) xs"
    by (simp_all add: dropWhile_append1 takeWhile_append1)
  from x obtain y yr where n: "dropWhile (\<lambda>step. decodes (snd step)) xs = y # yr"
    by (cases "dropWhile (\<lambda>step. decodes (snd step)) xs") (auto simp: dropWhile_eq_Nil_conv)
  from a show ?thesis unfolding scan_error_def scanned_def d t n by simp
qed

lemma scan_handlers_scan:
  "scan_handlers route hs a =
     (scan_error (map (Pair route) hs),
      append_names (map (local_name (AutoCNAMEZone a))
        (hosts_found (scanned (map (Pair route) hs)))) a)"
proof (induction hs arbitrary: a)
  case Nil
  show ?case by simp
next
  case (Cons raw hs)
  show ?case
  proof (cases "json_Unmarshal raw")
    case (Inl err)
    then show ?thesis
      by (simp add: scan_error_def scanned_def decodes_def)
  next
    case (Inr handler)
    then have d: "decodes raw" by (simp add: decodes_def)
    have rp: "reverse_proxy_raw raw = is_reverse_proxy handler"
      using Inr by (simp add: reverse_proxy_raw_def)
    have e: "scan_error ((route, raw) # map (Pair route) hs) = scan_error (map (Pair route) hs)"
      using d by (simp add: scan_error_def)
    have s: "scanned ((route, raw) # map (Pair route) hs) =
        (route, raw) # scanned (map (Pair route) hs)"
      using d by (simp add: scanned_def)
    have h: "hosts_found ((route, raw) # scanned (map (Pair route) hs)) =
        (if is_reverse_proxy handler then route_hosts route else []) @
        hosts_found (scanned (map (Pair route) hs))"
      by (simp add: hosts_found_def rp)
    show ?thesis
      by (simp add: Inr Cons.IH e s h add_matcherSets_eq append_names_append route_hosts_def)
  qed
qed

lemma scan_routes_scan:
  "scan_routes rs a =
     (scan_error (route_steps rs),
      append_names (map (local_name (AutoCNAMEZone a)) (hosts_found (scanned (route_steps rs)))) a)"
proof (induction rs arbitrary: a)
  case Nil
  show ?case by (simp add: route_steps_def)
next
  case (Cons r rs)
  let ?X = "map (Pair r) (HandlersRaw r)"
  have st: "route_steps (r # rs) = ?X @ route_steps rs" by (simp add: route_steps_def)
  from scan_error_forms [of ?X] show ?case
  proof
    assume ok: "scan_error ?X = Inr ()"
    then have all: "scanned ?X = ?X" using scan_error_Inr [OF ok] scan_error_all by blast
    from scan_append_ok [OF ok, of "route_steps rs"] show ?thesis
      by (simp add: st scan_handlers_scan ok all Cons.IH append_names_append hosts_found_append)
  next
    assume "\<exists>e. scan_error ?X = Inl (FailedToUnmarshalHandler e)"
    then obtain e where f: "scan_error ?X = Inl (FailedToUnmarshalHandler e)" by blast
    from scan_append_fail [OF f, of "route_steps rs"] show ?thesis
      by (simp add: st scan_handlers_scan f)
  qed
qed

lemma server_steps_Cons:
  "server_steps (server # servers) = route_steps (Routes (snd server)) @ server_steps servers"
  by (simp add: server_steps_def)

lemma scan_servers_scan':
  "scan_servers ss a =
     (scan_error (server_steps ss),
      append_names (map (local_name (AutoCNAMEZone a))
        (hosts_found (scanned (server_steps ss)))) a)"
proof (induction ss arbitrary: a)
  case Nil
  show ?case by (simp add: server_steps_def)
next
  case (Cons s ss)
  let ?X = "route_steps (Routes (snd s))"
  let ?Y = "server_steps ss"
  from scan_error_forms [of ?X] show ?case
  proof
    assume ok: "scan_error ?X = Inr ()"
    then have all: "scanned ?X = ?X" using scan_error_Inr [OF ok] scan_error_all by blast
    from scan_append_ok [OF ok, of ?Y] show ?thesis
      by (simp add: server_steps_Cons scan_routes_scan ok all Cons.IH append_names_append
          hosts_found_append)
  next
    assume "\<exists>e. scan_error ?X = Inl (FailedToUnmarshalHandler e)"
    then obtain e where f: "scan_error ?X = Inl (FailedToUnmarshalHandler e)" by blast
    from scan_append_fail [OF f, of ?Y] show ?thesis
      by (simp add: server_steps_Cons scan_routes_scan f)
  qed
qed

lemma addReverseProxyCNAMEs_scan:
  assumes "ctx a = Some c" and "ctx_App c ''http'' = Inr (HTTPApp httpApp)"
  shows "addReverseProxyCNAMEs a =
     (scan_error (handler_steps httpApp),
      append_names (map (local_name (AutoCNAMEZone a))
        (hosts_found (scanned (handler_steps httpApp)))) a)"
  using assms by (simp add: addReverseProxyCNAMEs_def scan_servers_scan' handler_steps_def)

lemma addReverseProxyCNAMEs_frame:
  "\<exists>names. addReverseProxyCNAMEs a = (fst (addReverseProxyCNAMEs a), append_names names a)"
proof (cases "\<exists>c httpApp. ctx a = Some c \<and> ctx_App c ''http'' = Inr (HTTPApp httpApp)")
  case True
  then obtain c httpApp where "ctx a = Some c" "ctx_App c ''http'' = Inr (HTTPApp httpApp)"
    by blast
  from addReverseProxyCNAMEs_scan [OF this] have
    "addReverseProxyCNAMEs a = (fst (addReverseProxyCNAMEs a),
       append_names (map (local_name (AutoCNAMEZone a))
         (hosts_found (scanned (handler_steps httpApp)))) a)"
    by simp
  then show ?thesis ..
next
  case False
  have "snd (addReverseProxyCNAMEs a) = a"
  proof (cases "ctx a")
    case None
    then show ?thesis by (simp add: addReverseProxyCNAMEs_def)
  next
    case (Some c)
    show ?thesis
    proof (cases "ctx_App c ''http''")
      case (Inl err)
      with Some show ?thesis by (simp add: addReverseProxyCNAMEs_def)
    next
      case (Inr app)
      with Some False have "app = OtherApp" by (cases app) auto
      with Some Inr show ?thesis by (simp add: addReverseProxyCNAMEs_def)
    qed
  qed
  then have "addReverseProxyCNAMEs a = (fst (addReverseProxyCNAMEs a), append_names [] a)"
    by (simp add: prod_eq_iff)
  then show ?thesis ..
qed






lemma discovering_app_simps:
  "ctx (discovering_app zone routes) = Some (snapshot_of routes)"
  "AutoCNAMEZone (discovering_app zone routes) = zone"
  "Domains (discovering_app zone routes) = Map.empty"
  "ctx_App (snapshot_of routes) ''http'' = Inr (HTTPApp \<lparr>Servers = [(''srv0'', \<lparr>Routes = routes\<rparr>)]\<rparr>)"
  by (simp_all add: discovering_app_def Provision_def Let_def new_App_def snapshot_of_def)

text \<open>
  C6. The code at the snapshot of the claim as the provisioned HTTP app holds it (one
  route, its reverse-proxy handler loaded and the raw list emptied, its host matcher for
  \<^verbatim>\<open>api.example.com\<close> held by pointer), with the auto-discovery zone \<^verbatim>\<open>example.com\<close>:
  discovery succeeds and leaves the app as it was, so the zone \<^verbatim>\<open>example.com\<close> has no
  entry and the name \<^verbatim>\<open>api\<close> is not added. Each of the two differences is enough on its
  own: with the raw handler still in place next to a pointer matcher nothing is added,
  and with a value matcher next to an emptied raw list nothing is added either.
\<close>

theorem addReverseProxyCNAMEs_provisioned_snapshot:
  "addReverseProxyCNAMEs
      (discovering_app ''example.com'' [provisioned_route [''api.example.com'']]) =
     (Inr (), discovering_app ''example.com'' [provisioned_route [''api.example.com'']]) \<and>
   Domains (discovering_app ''example.com'' [provisioned_route [''api.example.com'']])
      ''example.com'' = None \<and>
   addReverseProxyCNAMEs
      (discovering_app ''example.com''
         [\<lparr>MatcherSets = [[MatchHostPtr [''api.example.com'']]],
           HandlersRaw = [reverse_proxy_handler], Handlers = []\<rparr>]) =
     (Inr (), discovering_app ''example.com''
         [\<lparr>MatcherSets = [[MatchHostPtr [''api.example.com'']]],
           HandlersRaw = [reverse_proxy_handler], Handlers = []\<rparr>]) \<and>
   addReverseProxyCNAMEs
      (discovering_app ''example.com''
         [\<lparr>MatcherSets = [[MatchHost [''api.example.com'']]],
           HandlersRaw = [], Handlers = [ReverseProxyHandler]\<rparr>]) =
     (Inr (), discovering_app ''example.com''
         [\<lparr>MatcherSets = [[MatchHost [''api.example.com'']]],
           HandlersRaw = [], Handlers = [ReverseProxyHandler]\<rparr>])"
  by (simp add: addReverseProxyCNAMEs_def discovering_app_simps provisioned_route_def
      reverse_proxy_handler_def is_reverse_proxy_def)

lemma steps_set:
  "step \<in> set (handler_steps httpApp) \<longleftrightarrow>
     (\<exists>server \<in> set (Servers httpApp). \<exists>route \<in> set (Routes (snd server)).
        \<exists>raw \<in> set (HandlersRaw route). step = (route, raw))"
  by (auto simp: handler_steps_def server_steps_def route_steps_def)









lemma TrimSuffix_append: "TrimSuffix (p @ suf) suf = p"
  by (simp add: TrimSuffix_def HasSuffix_def)




text \<open>
  The body of the innermost loop at a host under the zone: adding \<^verbatim>\<open><label>.<zone>\<close>
  appends exactly \<^verbatim>\<open><label>\<close> to the list of the zone.
\<close>

theorem add_host_under_zone:
  "names_of (Domains (add_host (label @ ''.'' @ AutoCNAMEZone a) a)) (AutoCNAMEZone a) =
     names_of (Domains a) (AutoCNAMEZone a) @ [label]"
proof -
  have "TrimSuffix (label @ ''.'' @ AutoCNAMEZone a) (''.'' @ AutoCNAMEZone a) = label"
    using TrimSuffix_append [of label "''.'' @ AutoCNAMEZone a"] by simp
  then show ?thesis by (simp add: add_host_def names_of_def)
qed

text \<open>
  A snapshot whose raw handlers all decode and none of which has the discriminator
  \<^verbatim>\<open>reverse_proxy\<close> contributes nothing: discovery succeeds and the app is unchanged.
  A snapshot without raw handlers is such a snapshot.
\<close>

theorem addReverseProxyCNAMEs_other_handlers:
  assumes "ctx a = Some c" and "ctx_App c ''http'' = Inr (HTTPApp httpApp)"
    and "\<forall>server \<in> set (Servers httpApp). \<forall>route \<in> set (Routes (snd server)).
           \<forall>raw \<in> set (HandlersRaw route). \<exists>handler. json_Unmarshal raw = Inr handler \<and>
              handler ''handler'' \<noteq> Some (JString ''reverse_proxy'')"
  shows "addReverseProxyCNAMEs a = (Inr (), a)"
proof -
  let ?steps = "handler_steps httpApp"
  have each: "decodes (snd step) \<and> \<not> reverse_proxy_raw (snd step)" if "step \<in> set ?steps" for step
  proof -
    from that obtain server route raw where "server \<in> set (Servers httpApp)"
      "route \<in> set (Routes (snd server))" "raw \<in> set (HandlersRaw route)" "step = (route, raw)"
      unfolding steps_set by blast
    with assms(3) obtain handler where "json_Unmarshal (snd step) = Inr handler"
      "handler ''handler'' \<noteq> Some (JString ''reverse_proxy'')"
      by fastforce
    then show ?thesis by (simp add: decodes_def reverse_proxy_raw_def is_reverse_proxy_def)
  qed
  then have "\<forall>step \<in> set ?steps. decodes (snd step)" by blast
  then have e: "scan_error ?steps = Inr ()" and s: "scanned ?steps = ?steps"
    using scan_error_all by blast+
  have "hosts_found ?steps = []"
    using each by (simp add: hosts_found_def)
  with e s show ?thesis
    by (simp add: addReverseProxyCNAMEs_scan [OF assms(1,2)])
qed

text \<open>
  At a route with a file-server handler and a host matcher: nothing is added.
\<close>

theorem addReverseProxyCNAMEs_other_handlers_witness:
  "addReverseProxyCNAMEs (discovering_app ''example.com''
      [raw_route [''api.example.com''] [file_server_handler]]) =
     (Inr (), discovering_app ''example.com''
      [raw_route [''api.example.com''] [file_server_handler]])"
proof -
  let ?routes = "[raw_route [''api.example.com''] [file_server_handler]]"
  have 3: "\<forall>server \<in> set (Servers \<lparr>Servers = [(''srv0'', \<lparr>Routes = ?routes\<rparr>)]\<rparr>).
      \<forall>route \<in> set (Routes (snd server)).
           \<forall>raw \<in> set (HandlersRaw route). \<exists>handler. json_Unmarshal raw = Inr handler \<and>
              handler ''handler'' \<noteq> Some (JString ''reverse_proxy'')"
    by (simp add: raw_route_def file_server_handler_def)
  show ?thesis
    by (rule addReverseProxyCNAMEs_other_handlers [OF discovering_app_simps(1)
          discovering_app_simps(4) 3])
qed

subsection \<open>The Caddyfile parser\<close>

lemma parse_block_unfold:
  "parse_block pd d app =
     (if fst (NextBlock 0 d) then
        (let d1 = snd (NextBlock 0 d) in
          if Val d1 = ''domains'' then
            (case parse_domains (Nesting d1) d1 app of
               Inl err \<Rightarrow> Inl err
             | Inr (app', d2) \<Rightarrow> parse_block pd d2 app')
          else if Val d1 = ''check_interval'' then
            (if fst (NextArg d1)
             then (case pd (Val (advance d1)) of
                    Inl err \<Rightarrow> Inl (ParseDurationError err)
                  | Inr dur \<Rightarrow> parse_block pd (advance d1) (app\<lparr>CheckInterval := dur\<rparr>))
             else Inl ArgErr)
          else if Val d1 = ''dns_server'' then
            (case parse_dns_server (Nesting d1) d1 app of
               Inl err \<Rightarrow> Inl err
             | Inr (app', d2) \<Rightarrow> parse_block pd d2 app')
          else if Val d1 = ''ttl'' then
            (if fst (NextArg d1)
             then (case pd (Val (advance d1)) of
                    Inl err \<Rightarrow> Inl (ParseDurationError err)
                  | Inr dur \<Rightarrow> parse_block pd (advance d1) (app\<lparr>TTL := dur\<rparr>))
             else Inl ArgErr)
          else if Val d1 = ''auto_cname'' then
            parse_block pd (snd (parse_auto_cname d1 app)) (fst (parse_auto_cname d1 app))
          else Inl ArgErr)
      else Inr (app, snd (NextBlock 0 d)))"
  by (subst parse_block.simps)
    (simp add: prod.case_eq_if bool.case_eq_if Let_def snd_NextArg split: sum.splits)

lemma parse_auto_cname_eq:
  "parse_auto_cname d app =
     (if fst (NextArg d) then (app, advance d) else (app\<lparr>AutoCNAMEZone := Val d\<rparr>, d))"
  by (simp add: parse_auto_cname_def prod.case_eq_if bool.case_eq_if snd_NextArg)

lemma Val_nonempty:
  "Val d \<noteq> [] \<Longrightarrow> 0 \<le> cursor d \<and> cursor d < int (length (tokens d)) \<and>
     Text (tokens d ! nat (cursor d)) = Val d"
  by (auto simp: Val_def split: if_splits)

lemma NextArg_has_arg:
  assumes "0 \<le> cursor d" "cursor d < int (length (tokens d))"
  shows "fst (NextArg d) = has_arg (tokens d) (nat (cursor d))"
proof -
  have s: "nat (cursor d + 1) = Suc (nat (cursor d))" using assms by simp
  have lt: "(cursor d < int (length (tokens d)) - 1) = (Suc (nat (cursor d)) < length (tokens d))"
    using assms by auto
  show ?thesis
    using assms
    by (auto simp: fst_NextArg fst_nextOnSameLine has_arg_def Val_def advance_def s lt)
qed

lemma parse_block_zone:
  "parse_block pd d app = Inr (app', d') \<Longrightarrow>
     AutoCNAMEZone app' = AutoCNAMEZone app \<or>
     (AutoCNAMEZone app' = ''auto_cname'' \<and> bare_auto_cname (tokens d))"
proof (induction "remaining d" arbitrary: d app rule: less_induct)
  case less
  let ?d1 = "snd (NextBlock 0 d)"
  note IH = less.hyps
  show ?case
  proof (cases "fst (NextBlock 0 d)")
    case False
    with less.prems show ?thesis
      by (subst (asm) parse_block_unfold) simp
  next
    case True
    have r1: "remaining ?d1 < remaining d" using True by (rule NextBlock_remaining)
    have t1: "tokens ?d1 = tokens d" by simp
    from less.prems True have run:
      "(if Val ?d1 = ''domains'' then
            (case parse_domains (Nesting ?d1) ?d1 app of
               Inl err \<Rightarrow> Inl err
             | Inr (app', d2) \<Rightarrow> parse_block pd d2 app')
          else if Val ?d1 = ''check_interval'' then
            (if fst (NextArg ?d1)
             then (case pd (Val (advance ?d1)) of
                    Inl err \<Rightarrow> Inl (ParseDurationError err)
                  | Inr dur \<Rightarrow> parse_block pd (advance ?d1) (app\<lparr>CheckInterval := dur\<rparr>))
             else Inl ArgErr)
          else if Val ?d1 = ''dns_server'' then
            (case parse_dns_server (Nesting ?d1) ?d1 app of
               Inl err \<Rightarrow> Inl err
             | Inr (app', d2) \<Rightarrow> parse_block pd d2 app')
          else if Val ?d1 = ''ttl'' then
            (if fst (NextArg ?d1)
             then (case pd (Val (advance ?d1)) of
                    Inl err \<Rightarrow> Inl (ParseDurationError err)
                  | Inr dur \<Rightarrow> parse_block pd (advance ?d1) (app\<lparr>TTL := dur\<rparr>))
             else Inl ArgErr)
          else if Val ?d1 = ''auto_cname'' then
            parse_block pd (snd (parse_auto_cname ?d1 app)) (fst (parse_auto_cname ?d1 app))
          else Inl ArgErr) = Inr (app', d')"
      by (subst (asm) parse_block_unfold) (simp add: Let_def)
    have adv: "remaining (advance ?d1) < remaining d" "tokens (advance ?d1) = tokens d"
      using r1 by (simp_all add: remaining_def)
    consider (domains) "Val ?d1 = ''domains''"
      | (check_interval) "Val ?d1 = ''check_interval''"
      | (dns_server) "Val ?d1 = ''dns_server''"
      | (ttl) "Val ?d1 = ''ttl''"
      | (auto_cname) "Val ?d1 = ''auto_cname''"
      | (other) "Val ?d1 \<noteq> ''domains''" "Val ?d1 \<noteq> ''check_interval''"
          "Val ?d1 \<noteq> ''dns_server''" "Val ?d1 \<noteq> ''ttl''" "Val ?d1 \<noteq> ''auto_cname''"
      by blast
    then show ?thesis
    proof cases
      case domains
      with run obtain app1 d2 where
        p: "parse_domains (Nesting ?d1) ?d1 app = Inr (app1, d2)" and
        rec: "parse_block pd d2 app1 = Inr (app', d')"
        by (auto split: sum.splits)
      from parse_domains_frame [OF p] r1 t1
      have "remaining d2 < remaining d" "tokens d2 = tokens d"
        "AutoCNAMEZone app1 = AutoCNAMEZone app" by simp_all
      with IH [OF _ rec] show ?thesis by simp
    next
      case check_interval
      with run obtain dur where
        rec: "parse_block pd (advance ?d1) (app\<lparr>CheckInterval := dur\<rparr>) = Inr (app', d')"
        by (auto split: sum.splits if_splits)
      from IH [OF adv(1) rec] adv(2) show ?thesis by simp
    next
      case dns_server
      with run obtain app1 d2 where
        p: "parse_dns_server (Nesting ?d1) ?d1 app = Inr (app1, d2)" and
        rec: "parse_block pd d2 app1 = Inr (app', d')"
        by (auto split: sum.splits)
      from parse_dns_server_frame [OF p] r1 t1
      have "remaining d2 < remaining d" "tokens d2 = tokens d"
        "AutoCNAMEZone app1 = AutoCNAMEZone app" by simp_all
      with IH [OF _ rec] show ?thesis by simp
    next
      case ttl
      with run obtain dur where
        rec: "parse_block pd (advance ?d1) (app\<lparr>TTL := dur\<rparr>) = Inr (app', d')"
        by (auto split: sum.splits if_splits)
      from IH [OF adv(1) rec] adv(2) show ?thesis by simp
    next
      case auto_cname
      with run have rec0:
        "parse_block pd (snd (parse_auto_cname ?d1 app)) (fst (parse_auto_cname ?d1 app)) =
           Inr (app', d')"
        by simp
      show ?thesis
      proof (cases "fst (NextArg ?d1)")
        case True
        with rec0 have rec: "parse_block pd (advance ?d1) app = Inr (app', d')"
          by (simp add: parse_auto_cname_eq)
        from IH [OF adv(1) rec] adv(2) show ?thesis by simp
      next
        case False
        with rec0 auto_cname have rec:
          "parse_block pd ?d1 (app\<lparr>AutoCNAMEZone := ''auto_cname''\<rparr>) = Inr (app', d')"
          by (simp add: parse_auto_cname_eq)
        from auto_cname have "Val ?d1 \<noteq> []" by simp
        from Val_nonempty [OF this] auto_cname t1
        have c: "0 \<le> cursor ?d1" "cursor ?d1 < int (length (tokens d))"
          "Text (tokens d ! nat (cursor ?d1)) = ''auto_cname''" by simp_all
        with False t1 have "\<not> has_arg (tokens d) (nat (cursor ?d1))"
          using NextArg_has_arg [of ?d1] by simp
        with c have bare: "bare_auto_cname (tokens d)"
          unfolding bare_auto_cname_def
          by (intro exI [of _ "nat (cursor ?d1)"]) auto
        from IH [OF r1 rec] have "AutoCNAMEZone app' = ''auto_cname''" by auto
        with bare show ?thesis by simp
      qed
    next
      case other
      with run show ?thesis by simp
    qed
  qed
qed

lemmas dispenser_defs = NewDispenser_def Next_def NextBlock_def NextArg_def nextOnSameLine_def
  Val_def isNextOnNewLine_def NumLineBreaks_def Nesting_def tok_def parse_auto_cname_def

lemma parseApp_with_zone:
  "parseApp no_durations (NewDispenser caddyfile_with_zone) = Inr new_App"
  by (simp add: parseApp_def caddyfile_with_zone_def parse_block.simps dispenser_defs Let_def)

lemma parseApp_bare:
  "parseApp no_durations (NewDispenser caddyfile_bare) =
     Inr (new_App\<lparr>AutoCNAMEZone := ''auto_cname''\<rparr>)"
  by (simp add: parseApp_def caddyfile_bare_def parse_block.simps dispenser_defs Let_def)

text \<open>
  C10. At the directive \<^verbatim>\<open>auto_cname\<close>: when an argument follows, it is consumed (the
  cursor moves onto it) and the app is left as it was; when none follows, the zone is set
  to the current token, the word \<^verbatim>\<open>auto_cname\<close> itself. For the whole parser: the zone of
  a parsed app is empty or the word \<^verbatim>\<open>auto_cname\<close>, and it is empty whenever every
  \<^verbatim>\<open>auto_cname\<close> of the input is followed by an argument.
\<close>

theorem parseApp_auto_cname_zone:
  "(fst (NextArg d) \<longrightarrow>
      parse_auto_cname d app = (app, snd (NextArg d)) \<and>
      cursor (snd (NextArg d)) = cursor d + 1) \<and>
   (\<not> fst (NextArg d) \<and> Val d = ''auto_cname'' \<longrightarrow>
      parse_auto_cname d app = (app\<lparr>AutoCNAMEZone := ''auto_cname''\<rparr>, d)) \<and>
   (parseApp ParseDuration (NewDispenser ts) = Inr app' \<longrightarrow>
      (AutoCNAMEZone app' = [] \<or> AutoCNAMEZone app' = ''auto_cname'') \<and>
      ((\<forall>i < length ts. Text (ts ! i) = ''auto_cname'' \<longrightarrow> has_arg ts i) \<longrightarrow>
         AutoCNAMEZone app' = []))"
proof -
  have 1: "parse_auto_cname d app = (app, snd (NextArg d)) \<and>
      cursor (snd (NextArg d)) = cursor d + 1" if "fst (NextArg d)"
    using that by (simp add: parse_auto_cname_eq snd_NextArg)
  have 2: "parse_auto_cname d app = (app\<lparr>AutoCNAMEZone := ''auto_cname''\<rparr>, d)"
    if "\<not> fst (NextArg d) \<and> Val d = ''auto_cname''"
    using that by (simp add: parse_auto_cname_eq)
  have 3: "(AutoCNAMEZone app' = [] \<or> AutoCNAMEZone app' = ''auto_cname'') \<and>
      ((\<forall>i < length ts. Text (ts ! i) = ''auto_cname'' \<longrightarrow> has_arg ts i) \<longrightarrow>
         AutoCNAMEZone app' = [])"
    if p: "parseApp ParseDuration (NewDispenser ts) = Inr app'"
  proof -
    let ?d1 = "snd (Next (NewDispenser ts))"
    from p obtain d2 where
      run: "parse_block ParseDuration ?d1 new_App = Inr (app', d2)"
      by (auto simp: parseApp_def prod.case_eq_if bool.case_eq_if split: if_splits sum.splits)
    have t: "tokens ?d1 = ts" by (simp add: Next_def NewDispenser_def)
    have z: "AutoCNAMEZone new_App = []" by (simp add: new_App_def)
    from parse_block_zone [OF run] t z
    have "AutoCNAMEZone app' = [] \<or> (AutoCNAMEZone app' = ''auto_cname'' \<and> bare_auto_cname ts)"
      by simp
    then show ?thesis by (auto simp: bare_auto_cname_def)
  qed
  from 1 2 3 show ?thesis by blast
qed

text \<open>
  C10 at the two example Caddyfiles: with a zone argument the zone stays empty, without
  one it becomes \<^verbatim>\<open>auto_cname\<close>.
\<close>

theorem parseApp_auto_cname_zone_witness:
  "parseApp no_durations (NewDispenser caddyfile_with_zone) = Inr new_App \<and>
   AutoCNAMEZone new_App = [] \<and>
   parseApp no_durations (NewDispenser caddyfile_bare) =
     Inr (new_App\<lparr>AutoCNAMEZone := ''auto_cname''\<rparr>) \<and>
   \<not> has_arg caddyfile_bare 2"
proof -
  have h: "\<forall>i < length caddyfile_with_zone.
      Text (caddyfile_with_zone ! i) = ''auto_cname'' \<longrightarrow> has_arg caddyfile_with_zone i"
  proof (intro allI impI)
    fix i assume "i < length caddyfile_with_zone"
      and t: "Text (caddyfile_with_zone ! i) = ''auto_cname''"
    then have "i \<in> {0, 1, 2, 3, 4}" by (auto simp: caddyfile_with_zone_def)
    with t have "i = 2" by (auto simp: caddyfile_with_zone_def tok_def)
    then show "has_arg caddyfile_with_zone i"
      by (simp add: has_arg_def caddyfile_with_zone_def tok_def isNextOnNewLine_def
          NumLineBreaks_def)
  qed
  have b: "\<not> has_arg caddyfile_bare 2"
    by (simp add: has_arg_def caddyfile_bare_def tok_def isNextOnNewLine_def NumLineBreaks_def)
  from parseApp_auto_cname_zone [of _ _ no_durations caddyfile_with_zone new_App]
    parseApp_with_zone h
  have "AutoCNAMEZone new_App = []" by blast
  with parseApp_with_zone parseApp_bare b show ?thesis by blast
qed

end
